(* ===== verification/Prelude.thy ===== *)
theory Prelude
  imports Main "HOL-Library.Word"
begin

unbundle bit_operations_syntax

text \<open>
  Shared vocabulary of the development: bytes and byte slices, the Go convention of
  returning an error next to a value (here a sum with the error on the left), run-time
  panics of the language as error values, and the list, sum and word lemmas that the
  component theories use.
\<close>

section \<open>Bytes, slices, results\<close>

type_synonym byte = "8 word"
type_synonym bytes = "8 word list"

text \<open>
  Every error value the code returns, one constructor per \<open>errors.New\<close> message, and the
  run-time panics Go raises for an out-of-range index. \<open>ExternalError\<close> is an error that
  comes out of code the repository only calls (a cipher, a key, a certificate).
\<close>

datatype ber_error =
    EmptyInput | MaxNestingDepthExceeded | OffsetAfterEnd | EndOfData | LengthTooLong | LengthNegative
  | LeadingZero | InvalidNegativeLength | LengthExceedsData | IndefinitePrimitive | InvalidFormat

datatype asn1_error =
    Base128TooLarge | Base128NotMinimal | Base128Truncated | NonMinimalTag | TruncatedHeader
  | IndefiniteLength | LengthTooLarge | SuperfluousZeros | NonMinimalLength | SequenceTruncated
  | ExplicitNoChild | ExplicitMismatch | ZeroLengthExplicit | TagsDontMatch | DataTruncated
  | SequenceTagMismatch | TruncatedSequence | EmptyInteger | IntegerNotMinimal | IntegerTooLarge
  | EmptyOID | InvalidOID | BadBitString | TrailingData

text \<open>The algorithm tables of \<open>pkcs7.go\<close> and \<open>verify.go\<close>.\<close>

datatype alg_error =
    UnknownHashAlgorithm | KeyNotSigner | UnsupportedMLDSAParameters | UnknownKeyType
  | MLDSAParametersPresent | ECPublicKeyParameters | UnsupportedDigest | DSAVerificationUnsupported
  | UnsupportedSignatureAlgorithm | PSSTrailingData | PSSUnsupportedHash | PSSUnsupportedMGF
  | PSSInvalidMGFParameters | PSSMGFHashDiffers | PSSSaltLength int | PSSTrailerField int
  | PSSDigestDiffers

text \<open>Recipients: \<open>encrypt.go\<close>, \<open>decrypt.go\<close> and \<open>kem.go\<close>.\<close>

datatype recipient_error =
    KEMRequiresAESCBC | KEMInvalidKeyLength | RecipientCertificateNil | KEMKeyUsage
  | UnsupportedRecipientKeyType | SPKITrailingData | SPKIParametersPresent | SPKIMalformedKey
  | MLKEM512Unsupported | UnsupportedRecipientKeyAlgorithm | RecipientTrailingData
  | NotOtherRecipientInfo | OtherRecipientTrailingData | KEMTrailingData | KEMVersion
  | KEMAlgorithmMismatch | KEMParametersPresent | KEMUnsupportedKDF | KEMUnsupportedWrap
  | NoRecipientForCertificate | IssuerAndSerialTrailingData | UnsupportedRecipientIdentifier
  | KeyTransTrailingData | EnvelopeVersionNot3

text \<open>Signed data: \<open>sign.go\<close> and \<open>verify.go\<close>; the two octet strings are the digests that differ.\<close>

datatype sign_error =
    NoSigners | NoCertificateForSigner | MessageDigestMismatchError bytes bytes
  | SigningTimeOutsideValidity int | AttributeNotFound | PayloadNotSignedData | PayloadNoSigners
  | ZeroParents | PrivateKeyNotSigner

text \<open>The contexts of the errors that wrap another one (\<open>fmt.Errorf("...: %w", err)\<close>).\<close>

datatype error_context =
    PSSInvalidParameters
  | MalformedKeyTrans | MalformedOtherRecipient | MalformedKEMRecipient | MalformedIssuerAndSerial
  | CannotMarshalRecipient | CannotParseSPKI | InvalidMLKEMKey | DecapsulationFailed
  | ParentSignatureInvalid | ChainVerificationFailed

datatype go_error =
    PanicIndex
  | PanicSlice
  | PanicCipher
  | PanicNil
  | ExternalError nat
  | BerError ber_error
  | Asn1Error asn1_error
  | AlgError alg_error
  | RecipientError recipient_error
  | SignError sign_error
  | Wrapped error_context go_error
  | ErrUnsupportedAlgorithm
  \<comment> \<open>encrypt.go, decrypt.go\<close>
  | InvalidBlocklen int
  | InvalidPadding
  | InvalidContentEncryptionAlgorithm int
  | ErrUnsupportedEncryptionAlgorithm
  | ErrPSKNotProvided
  | ErrNotEncryptedContent
  | ErrUnsupportedContentType
  | EmptyInputData
  | AlgorithmParametersIncorrect
  | AlgorithmParametersMalformed
  | EntropyExhausted
  \<comment> \<open>kem.go\<close>
  | KeyWrapInputLength
  | KeyWrapMalformed
  | KeyUnwrapIntegrity
  \<comment> \<open>crypto/aes, crypto/des: \<open>KeySizeError\<close>\<close>
  | KeySizeError nat

type_synonym 'a result = "go_error + 'a"

text \<open>\<open>v, err := m; if err != nil { return err }; k(v)\<close>\<close>

definition and_then :: "'e + 'a \<Rightarrow> ('a \<Rightarrow> 'e + 'b) \<Rightarrow> 'e + 'b" where
  "and_then m k = (case m of Inl e \<Rightarrow> Inl e | Inr v \<Rightarrow> k v)"

lemma and_then_simps [simp]:
  "and_then (Inl e) k = Inl e"
  "and_then (Inr v) k = k v"
  by (simp_all add: and_then_def)

lemma and_then_cong [fundef_cong]:
  "m = m' \<Longrightarrow> (\<And>v. m' = Inr v \<Longrightarrow> k v = k' v) \<Longrightarrow> and_then m k = and_then m' k'"
  by (cases m') (simp_all)

lemma and_then_Inr_iff: "and_then m k = Inr v \<longleftrightarrow> (\<exists>u. m = Inr u \<and> k u = Inr v)"
  by (cases m) simp_all

lemma and_then_InrE [elim!]:
  assumes "and_then m k = Inr v"
  obtains u where "m = Inr u" "k u = Inr v"
  using assms by (auto simp: and_then_Inr_iff)

lemma and_then_Inl_iff:
  "and_then m k = Inl e \<longleftrightarrow> m = Inl e \<or> (\<exists>u. m = Inr u \<and> k u = Inl e)"
  by (cases m) simp_all

text \<open>A result that is not a run-time panic; sequencing keeps the property.\<close>

definition no_panic :: "'a result \<Rightarrow> bool" where
  "no_panic r \<longleftrightarrow> r \<noteq> Inl PanicIndex \<and> r \<noteq> Inl PanicSlice \<and> r \<noteq> Inl PanicCipher \<and> r \<noteq> Inl PanicNil"

named_theorems no_panic_rules

lemma no_panic_Inr [simp, no_panic_rules]: "no_panic (Inr v)"
  by (simp add: no_panic_def)

lemma no_panic_Inl [simp]: "no_panic (Inl e) \<longleftrightarrow> e \<noteq> PanicIndex \<and> e \<noteq> PanicSlice \<and> e \<noteq> PanicCipher \<and> e \<noteq> PanicNil"
  by (simp add: no_panic_def)

lemma no_panic_and_then [no_panic_rules]:
  "no_panic m \<Longrightarrow> (\<And>v. m = Inr v \<Longrightarrow> no_panic (k v)) \<Longrightarrow> no_panic (and_then m k)"
  by (cases m) auto

text \<open>\<open>xs[i]\<close>: Go panics when the index is out of range.\<close>

definition byte_at :: "bytes \<Rightarrow> nat \<Rightarrow> byte result" where
  "byte_at xs i = (if i < length xs then Inr (xs ! i) else Inl PanicIndex)"

text \<open>
  \<open>xs[i:j]\<close>: the bytes, and the operation itself, which panics when the bounds are out of
  order or past the end.
\<close>

definition subslice :: "bytes \<Rightarrow> nat \<Rightarrow> nat \<Rightarrow> bytes" where
  "subslice xs i j = take (j - i) (drop i xs)"

definition go_slice :: "bytes \<Rightarrow> nat \<Rightarrow> nat \<Rightarrow> bytes result" where
  "go_slice xs i j = (if i \<le> j \<and> j \<le> length xs then Inr (subslice xs i j) else Inl PanicSlice)"

lemma go_slice_Inr_iff [simp]:
  "go_slice xs i j = Inr ys \<longleftrightarrow> i \<le> j \<and> j \<le> length xs \<and> ys = subslice xs i j"
  by (auto simp: go_slice_def)

lemma go_slice_ok [simp]: "i \<le> j \<Longrightarrow> j \<le> length xs \<Longrightarrow> go_slice xs i j = Inr (subslice xs i j)"
  by simp

lemma byte_at_Inr_iff [simp]: "byte_at xs i = Inr b \<longleftrightarrow> i < length xs \<and> b = xs ! i"
  by (auto simp: byte_at_def)

lemma byte_at_ok [simp]: "i < length xs \<Longrightarrow> byte_at xs i = Inr (xs ! i)"
  by simp

lemma length_subslice [simp]: "j \<le> length xs \<Longrightarrow> length (subslice xs i j) = j - i"
  by (simp add: subslice_def)

lemma subslice_0 [simp]: "subslice xs 0 j = take j xs"
  by (simp add: subslice_def)

lemma subslice_append_prefix [simp]: "j \<le> length xs \<Longrightarrow> subslice (xs @ ys) i j = subslice xs i j"
  by (simp add: subslice_def)

lemma subslice_middle [simp]:
  "subslice (pre @ mid @ post) (length pre) (length pre + length mid) = mid"
  by (simp add: subslice_def)

lemma subslice_take [simp]: "j \<le> n \<Longrightarrow> subslice (take n xs) i j = subslice xs i j"
  by (simp add: subslice_def drop_take min_def)

section \<open>Big-endian integers\<close>

text \<open>The last \<open>n\<close> base-256 digits of \<open>i\<close>, most significant first, and their value.\<close>

fun be_bytes :: "nat \<Rightarrow> nat \<Rightarrow> bytes" where
  "be_bytes 0 i = []"
| "be_bytes (Suc n) i = word_of_nat (drop_bit (n * 8) i) # be_bytes n i"

definition be_value :: "bytes \<Rightarrow> nat" where
  "be_value bs = foldl (\<lambda>a b. a * 256 + unat b) 0 bs"

lemma length_be_bytes [simp]: "length (be_bytes n i) = n"
  by (induction n) simp_all

lemma foldl_be_acc:
  "foldl (\<lambda>a b. a * 256 + unat b) a bs = a * 256 ^ length bs + be_value bs" for bs :: bytes
proof (induction bs arbitrary: a)
  case Nil
  show ?case by (simp add: be_value_def)
next
  case (Cons b bs)
  have "be_value (b # bs) = unat b * 256 ^ length bs + be_value bs"
    using Cons.IH [of "unat b"] by (simp add: be_value_def)
  with Cons.IH [of "a * 256 + unat b"] show ?case
    by (simp add: algebra_simps)
qed

lemma be_value_Nil [simp]: "be_value [] = 0"
  by (simp add: be_value_def)

lemma be_value_Cons: "be_value (b # bs) = unat b * 256 ^ length bs + be_value bs"
  using foldl_be_acc [of "unat b" bs] by (simp add: be_value_def)

lemma unat_byte_less [simp]: "unat (b :: byte) < 256"
  by (rule order.strict_trans2 [OF unsigned_less]) simp

lemma unat_byte_of_nat [simp]: "unat (word_of_nat n :: byte) = n mod 256"
  by (simp add: unat_of_nat)

lemma unat_byte_small: "n < 256 \<Longrightarrow> unat (word_of_nat n :: byte) = n"
  by simp

lemma be_value_less: "be_value bs < 256 ^ length bs"
proof (induction bs)
  case (Cons b bs)
  have "unat b * 256 ^ length bs + be_value bs < (unat b + 1) * 256 ^ length bs"
    using Cons.IH by simp
  also have "\<dots> \<le> 256 * 256 ^ length bs"
    using unat_byte_less [of b] by (intro mult_le_mono1) linarith
  finally show ?case by (simp add: be_value_Cons)
qed simp

lemma be_value_be_bytes_mod: "be_value (be_bytes n i) = i mod 256 ^ n"
proof (induction n)
  case (Suc n)
  have "(2::nat) ^ (n * 8) = 256 ^ n" by (simp add: power_mult mult.commute [of n])
  with Suc show ?case
    by (simp add: be_value_Cons drop_bit_eq_div mod_mult2_eq mult.commute [of 256])
qed simp

lemma be_value_be_bytes: "i < 256 ^ n \<Longrightarrow> be_value (be_bytes n i) = i"
  by (simp add: be_value_be_bytes_mod)

lemma be_bytes_be_value: "be_bytes (length bs) (be_value bs) = bs"
proof (induction bs)
  case (Cons b bs)
  have "drop_bit (length bs * 8) (be_value (b # bs)) = unat b"
    using be_value_less [of bs]
    by (simp add: be_value_Cons drop_bit_eq_div power_mult mult.commute [of "length bs"])
  moreover have "be_bytes n (a * 256 ^ length bs + v) = be_bytes n v" if "n \<le> length bs" for n a v
    using that
  proof (induction n)
    case (Suc n)
    have "drop_bit (n * 8) (a * 256 ^ length bs + v) mod 256 = drop_bit (n * 8) v mod 256"
    proof -
      have split: "(256::nat) ^ length bs = 256 ^ n * (256 * 256 ^ (length bs - Suc n))"
        using Suc.prems by (simp flip: power_Suc power_add)
      have "(a * 256 ^ length bs + v) div 256 ^ n = a * (256 * 256 ^ (length bs - Suc n)) + v div 256 ^ n"
        unfolding split by (simp add: div_mult_self2 mult.left_commute [of a])
      then show ?thesis
        by (simp add: drop_bit_eq_div power_mult mult.commute [of n] mult.left_commute [of a])
    qed
    then have "(word_of_nat (drop_bit (n * 8) (a * 256 ^ length bs + v)) :: byte)
        = word_of_nat (drop_bit (n * 8) v)"
      by (simp add: word_unat_eq_iff)
    with Suc show ?case by simp
  qed simp
  ultimately show ?case
    using Cons.IH by (simp add: be_value_Cons [of b bs])
qed simp

section \<open>Encoders and their decoders\<close>

text \<open>
  The interface between a component that writes values and one that reads them back: a
  decoder that consumes exactly the bytes the encoder produced and hands on the rest.
\<close>

locale codec =
  fixes enc :: "'a \<Rightarrow> bytes" and dec :: "bytes \<Rightarrow> ('a \<times> bytes) result" and valid :: "'a \<Rightarrow> bool"
  assumes dec_enc: "valid v \<Longrightarrow> dec (enc v @ rest) = Inr (v, rest)"
begin

lemma enc_prefix_free:
  assumes "valid v" "valid w" "enc v @ r = enc w @ s"
  shows "v = w \<and> r = s"
proof -
  have "Inr (v, r) = (Inr (w, s) :: ('a \<times> bytes) result)"
    using dec_enc [OF assms(1), of r] dec_enc [OF assms(2), of s] unfolding assms(3) by (rule trans [OF sym])
  then show ?thesis by simp
qed

lemma enc_inj: "inj_on enc {v. valid v}"
proof (rule inj_onI)
  fix v w
  assume "v \<in> {v. valid v}" "w \<in> {v. valid v}" "enc v = enc w"
  then show "v = w" using enc_prefix_free [of v w "[]" "[]"] by simp
qed

lemma dec_enc_exact: "valid v \<Longrightarrow> dec (enc v) = Inr (v, [])"
  using dec_enc [of v "[]"] by simp

lemma enc_concat_inj:
  "\<forall>v \<in> set vs. valid v \<Longrightarrow> \<forall>w \<in> set ws. valid w \<Longrightarrow> length vs = length ws \<Longrightarrow>
     concat (map enc vs) = concat (map enc ws) \<Longrightarrow> vs = ws"
proof (induction vs arbitrary: ws)
  case (Cons v vs)
  then obtain w ws' where ws: "ws = w # ws'" by (cases ws) simp_all
  from Cons.prems(1,2) ws have valid: "valid v" "valid w" "\<forall>v \<in> set vs. valid v" "\<forall>w \<in> set ws'. valid w"
    by simp_all
  from Cons.prems(4) ws have "enc v @ concat (map enc vs) = enc w @ concat (map enc ws')"
    by (simp only: list.map concat.simps)
  from enc_prefix_free [OF valid(1,2) this] have "v = w" "concat (map enc vs) = concat (map enc ws')"
    by (rule conjunct1, rule conjunct2)
  moreover have "length vs = length ws'" using Cons.prems(3) ws by (simp only: list.size)
  ultimately show ?case using Cons.IH [OF valid(3,4)] ws by (simp only:)
qed simp

end

end
