(* ===== verification/Ber.thy ===== *)
theory Ber
  imports Prelude
begin

unbundle bit_operations_syntax

text \<open>
  The BER to DER transcoder of \<open>ber.go\<close>: the object tree, its encoder (\<open>EncodeTo\<close>,
  \<open>encodeLength\<close>), the bounded recursive reader (\<open>readObject\<close>) and \<open>ber2der\<close>.
\<close>

section \<open>Object tree and encoder\<close>

definition maxNestingDepth :: nat where
  "maxNestingDepth = 500"

text \<open>The two implementations of the interface \<open>asn1Object\<close>.\<close>

datatype asn1Object =
    Asn1Structured (tagBytes: bytes) (subObjects: "asn1Object list")
  | Asn1Primitive (tagBytes: bytes) (primLength: nat) (primContent: bytes)

text \<open>\<open>for i > 255 { numBytes++; i >>= 8 }\<close>\<close>

function lengthLength_loop :: "nat \<Rightarrow> nat \<Rightarrow> nat" where
  "lengthLength_loop i numBytes =
     (if i > 255 then lengthLength_loop (drop_bit 8 i) (numBytes + 1) else numBytes)"
  by pat_completeness auto
termination
  by (relation "measure fst") (auto simp: drop_bit_eq_div)

declare lengthLength_loop.simps [simp del]

definition lengthLength :: "nat \<Rightarrow> nat" where
  "lengthLength i = lengthLength_loop i 1"

text \<open>\<open>for ; n > 0; n-- { out.WriteByte(byte(i >> uint((n-1)*8))) }\<close>\<close>

fun marshalLongLength_loop :: "bytes \<Rightarrow> nat \<Rightarrow> nat \<Rightarrow> bytes" where
  "marshalLongLength_loop out i 0 = out"
| "marshalLongLength_loop out i (Suc n) =
     marshalLongLength_loop (out @ [word_of_nat (drop_bit (n * 8) i)]) i n"

definition marshalLongLength :: "bytes \<Rightarrow> nat \<Rightarrow> bytes" where
  "marshalLongLength out i = marshalLongLength_loop out i (lengthLength i)"

definition encodeLength :: "bytes \<Rightarrow> nat \<Rightarrow> bytes" where
  "encodeLength out len =
     (if len \<ge> 128
      then marshalLongLength (out @ [0x80 OR word_of_nat (lengthLength len)]) len
      else out @ [word_of_nat len])"

text \<open>
  \<open>EncodeTo\<close> appends to a \<open>bytes.Buffer\<close>, whose writes never fail; the model passes the
  buffer and returns it extended.
\<close>

fun EncodeTo :: "asn1Object \<Rightarrow> bytes \<Rightarrow> bytes" where
  "EncodeTo (Asn1Structured tag objs) out =
     (let inner = fold (\<lambda>obj buf. EncodeTo obj buf) objs []
      in encodeLength (out @ tag) (length inner) @ inner)"
| "EncodeTo (Asn1Primitive tag len cont) out = encodeLength (out @ tag) len @ cont"

section \<open>Reader\<close>

text \<open>
  The high-tag-number form: the loop skips bytes with the continuation bit and keeps the
  accumulated tag number, which wraps at 8 bits and is used nowhere.
\<close>

function readHighTag :: "bytes \<Rightarrow> nat \<Rightarrow> byte \<Rightarrow> (byte \<times> nat) result" where
  "readHighTag ber offset tag =
     and_then (byte_at ber offset) (\<lambda>b.
       if b \<ge> 0x80
       then (if offset + 1 \<ge> length ber then Inl (BerError EndOfData)
             else readHighTag ber (offset + 1) (tag * 128 + b - 0x80))
       else Inr (tag, offset))"
  by pat_completeness auto
termination
  by (relation "measure (\<lambda>(ber, offset, tag). length ber - offset)") auto

declare readHighTag.simps [simp del]

text \<open>Identifier octets: the first byte and the offset after the last one.\<close>

definition readTag :: "bytes \<Rightarrow> nat \<Rightarrow> (byte \<times> nat) result" where
  "readTag ber offset =
     (if offset \<ge> length ber then Inl (BerError OffsetAfterEnd)
      else and_then (byte_at ber offset) (\<lambda>b.
        if offset + 1 \<ge> length ber then Inl (BerError EndOfData)
        else if b AND 0x1F = 0x1F
        then and_then (readHighTag ber (offset + 1) 0) (\<lambda>(tag, off).
          if off + 1 \<ge> length ber then Inl (BerError EndOfData) else Inr (b, off + 1))
        else Inr (b, offset + 1)))"

text \<open>\<open>for i := 0; i < numberOfBytes; i++ { length = length*256 + int(ber[offset]); offset++ }\<close>\<close>

fun readLengthBytes :: "bytes \<Rightarrow> nat \<Rightarrow> nat \<Rightarrow> int \<Rightarrow> (int \<times> nat) result" where
  "readLengthBytes ber offset 0 len = Inr (len, offset)"
| "readLengthBytes ber offset (Suc n) len =
     and_then (byte_at ber offset) (\<lambda>b.
       readLengthBytes ber (offset + 1) n (len * 256 + int (unat b)))"

text \<open>
  The long form: \<open>numberOfBytes\<close> length octets from \<open>offset\<close>, rejected when there are more
  than four, when the value does not fit in 31 bits, or when the first one is superfluous.
\<close>

definition hasLeadingZero :: "bytes \<Rightarrow> nat \<Rightarrow> nat \<Rightarrow> bool result" where
  "hasLeadingZero ber offset numberOfBytes =
     and_then (byte_at ber offset) (\<lambda>b0.
       if b0 = 0
       then (if numberOfBytes = 1 then Inr True
             else and_then (byte_at ber (offset + 1)) (\<lambda>b1. Inr (b1 \<le> 0x7F)))
       else Inr False)"

definition readLongLength :: "bytes \<Rightarrow> nat \<Rightarrow> nat \<Rightarrow> (int \<times> nat) result" where
  "readLongLength ber offset numberOfBytes =
     (if numberOfBytes > 4 then Inl (BerError LengthTooLong)
      else and_then (if numberOfBytes = 4
                     then and_then (byte_at ber offset) (\<lambda>b0. Inr (unat b0 > 0x7F))
                     else Inr False) (\<lambda>negative.
        if negative then Inl (BerError LengthNegative)
        else if offset + numberOfBytes > length ber then Inl (BerError EndOfData)
        else and_then (hasLeadingZero ber offset numberOfBytes) (\<lambda>leadingZero.
          if leadingZero then Inl (BerError LeadingZero)
          else readLengthBytes ber offset numberOfBytes 0)))"

text \<open>Length octets: the length, whether the form is indefinite, and the offset after them.\<close>

definition readLength :: "bytes \<Rightarrow> nat \<Rightarrow> (int \<times> bool \<times> nat) result" where
  "readLength ber offset0 =
     and_then (byte_at ber offset0) (\<lambda>l. let offset = offset0 + 1 in
       if l \<ge> 0x80 \<and> offset \<ge> length ber then Inl (BerError EndOfData)
       else and_then
         (if l > 0x80
          then and_then (readLongLength ber offset (unat (l AND 0x7F))) (\<lambda>(len, off).
                 Inr (len, False, off))
          else if l = 0x80 then Inr (0, True, offset)
          else Inr (int (unat l), False, offset)) (\<lambda>(len, indefinite, off).
         if len < 0 then Inl (BerError InvalidNegativeLength)
         else if len > int (length ber) - int off then Inl (BerError LengthExceedsData)
         else Inr (len, indefinite, off)))"

definition isIndefiniteTermination :: "bytes \<Rightarrow> nat \<Rightarrow> bool result" where
  "isIndefiniteTermination ber offset =
     (if int (length ber) - int offset < 2 then Inl (BerError InvalidFormat)
      else and_then (byte_at ber offset) (\<lambda>b0.
        if b0 = 0 then and_then (byte_at ber (offset + 1)) (\<lambda>b1. Inr (b1 = 0))
        else Inr False))"

text \<open>
  \<open>readObject\<close> and its loop over the sub-objects. The loop ends at \<open>contentEnd\<close> in the
  definite form and at an end-of-contents marker in the indefinite form.
\<close>

function readObject :: "bytes \<Rightarrow> nat \<Rightarrow> nat \<Rightarrow> (asn1Object \<times> nat) result"
  and readSubObjects ::
    "bytes \<Rightarrow> nat \<Rightarrow> nat \<Rightarrow> bool \<Rightarrow> nat \<Rightarrow> (asn1Object list \<times> nat) result" where
  "readObject ber offset depth =
     (if depth > maxNestingDepth then Inl (BerError MaxNestingDepthExceeded)
      else and_then (readTag ber offset) (\<lambda>(b, tagEnd).
        and_then (readLength ber tagEnd) (\<lambda>(len, indefinite, off).
          let kind = b AND 0x20; contentEnd = off + nat len in
          if indefinite \<and> kind = 0 then Inl (BerError IndefinitePrimitive)
          else and_then (go_slice ber offset tagEnd) (\<lambda>tag.
            if kind = 0
            then and_then (go_slice ber off contentEnd) (\<lambda>content.
              Inr (Asn1Primitive tag (nat len) content, contentEnd))
            else and_then (if indefinite then Inr ber else go_slice ber 0 contentEnd) (\<lambda>ber'.
              and_then (readSubObjects ber' off contentEnd indefinite depth) (\<lambda>(objs, off').
                Inr (Asn1Structured tag objs, if indefinite then off' + 2 else contentEnd)))))))"
| "readSubObjects ber offset contentEnd indefinite depth =
     (if offset < contentEnd \<or> indefinite
      then and_then (if indefinite then isIndefiniteTermination ber offset else Inr False)
        (\<lambda>terminated.
          if terminated then Inr ([], offset)
          else and_then (readObject ber offset (depth + 1)) (\<lambda>(obj, off).
            and_then (readSubObjects ber off contentEnd indefinite depth) (\<lambda>(objs, off').
              Inr (obj # objs, off'))))
      else Inr ([], offset))"
  by pat_completeness auto

text \<open>
  The loop continues at the offset its child returns, so termination needs that a child
  that is read moves the offset forward. The bounds of the two header readers come first.
\<close>

lemma readHighTag_bounds:
  "readHighTag ber offset tag = Inr (tag', off) \<Longrightarrow> offset \<le> off \<and> off < length ber"
proof (induction ber offset tag rule: readHighTag.induct)
  case (1 ber offset tag)
  from "1.prems" show ?case
    using "1.IH" [of "ber ! offset"]
    by (subst (asm) readHighTag.simps) (auto split: if_splits)
qed

lemma readTag_bounds:
  "readTag ber offset = Inr (b, tagEnd) \<Longrightarrow>
     offset < tagEnd \<and> tagEnd < length ber \<and> b = ber ! offset"
  by (auto simp: readTag_def dest!: readHighTag_bounds split: if_splits)

lemma readLengthBytes_bounds:
  "readLengthBytes ber offset n len = Inr (len', off) \<Longrightarrow> off = offset + n"
  by (induction n arbitrary: offset len) (fastforce split: if_splits)+

lemma readLongLength_bounds:
  "readLongLength ber offset n = Inr (len, off) \<Longrightarrow> off = offset + n"
  by (auto simp: readLongLength_def dest: readLengthBytes_bounds split: if_splits)

lemma readLength_bounds:
  assumes "readLength ber offset = Inr (len, indefinite, off)"
  shows "offset < off \<and> 0 \<le> len \<and> off + nat len \<le> length ber \<and> (indefinite \<longrightarrow> len = 0)"
proof -
  from assms have "0 \<le> len \<and> len \<le> int (length ber) - int off"
    by (auto simp: readLength_def Let_def simp del: of_nat_unat split: if_splits)
  then have "0 \<le> len \<and> off + nat len \<le> length ber" by linarith
  with assms show ?thesis
    by (auto simp: readLength_def Let_def dest!: readLongLength_bounds split: if_splits)
qed

lemma readObject_progress:
  "readObject_readSubObjects_dom (Inl (ber, offset, depth)) \<Longrightarrow>
     (\<And>obj off. readObject ber offset depth = Inr (obj, off) \<Longrightarrow>
       offset < off \<and> offset < length ber)"
  and readSubObjects_progress:
  "readObject_readSubObjects_dom (Inr (ber, offset, contentEnd, indefinite, depth)) \<Longrightarrow>
     (\<And>objs off. readSubObjects ber offset contentEnd indefinite depth = Inr (objs, off) \<Longrightarrow>
       offset \<le> off)"
proof (induction ber offset depth and ber offset contentEnd indefinite depth
    rule: readObject_readSubObjects.pinduct)
  case (1 ber offset depth)
  from "1.prems" obtain b tagEnd len ind off' where
    depth: "\<not> depth > maxNestingDepth" and tag: "readTag ber offset = Inr (b, tagEnd)"
    and len: "readLength ber tagEnd = Inr (len, ind, off')"
    by (subst (asm) readObject.psimps [OF "1.hyps"]) (auto simp: Let_def split: if_splits)
  have bounds: "offset < tagEnd" "tagEnd < length ber" "tagEnd < off'" "off' + nat len \<le> length ber"
    using readTag_bounds [OF tag] readLength_bounds [OF len] by auto
  have IH: "off' \<le> fin" if "b AND 0x20 \<noteq> 0" "ind"
    "readSubObjects ber off' (off' + nat len) True depth = Inr (objs, fin)" for objs fin
    using "1.IH" [OF depth tag refl len refl refl refl refl _ _ _ _, of "subslice ber offset tagEnd" ber objs fin]
      that bounds by simp
  show ?case
  proof (cases "ind")
    case True
    with "1.prems" bounds show ?thesis
      by (subst (asm) readObject.psimps [OF "1.hyps"])
        (auto simp: depth tag len Let_def split: if_splits dest!: IH)
  next
    case False
    with "1.prems" bounds show ?thesis
      by (subst (asm) readObject.psimps [OF "1.hyps"])
        (auto simp: depth tag len Let_def split: if_splits)
  qed
next
  case (2 ber offset contentEnd indefinite depth)
  have IH: "offset \<le> fin" if "readObject ber offset (Suc depth) = Inr (obj, off)"
    "readSubObjects ber off contentEnd i depth = Inr (objs, fin)" "i = indefinite"
    "(if indefinite then isIndefiniteTermination ber offset else Inr False) = Inr False"
    "offset < contentEnd \<or> indefinite" for obj off objs fin i
  proof -
    have "offset < off"
      using "2.IH"(1) [OF that(5,4)] that(1) by simp
    moreover have "off \<le> fin"
      using "2.IH"(2) [OF that(5,4), of "(obj, off)" obj off] that(1-3) by simp
    ultimately show ?thesis by simp
  qed
  from "2.prems" show ?case
    by (subst (asm) readSubObjects.psimps [OF "2.hyps"]) (auto split: if_splits; erule (1) IH; simp)
qed

termination readObject
  by (relation "inv_image (less_than <*lex*> less_than <*lex*> less_than)
     (case_sum
        (\<lambda>(ber, offset, depth).
           (Suc maxNestingDepth - depth, if depth > maxNestingDepth then 0 else 2, 0::nat))
        (\<lambda>(ber, offset, contentEnd, indefinite, depth).
           (Suc maxNestingDepth - depth, 1::nat, length ber - offset)))")
    (auto dest!: readObject_progress intro: diff_less_mono2)

declare readObject.simps [simp del] readSubObjects.simps [simp del]

definition ber2der :: "bytes \<Rightarrow> bytes result" where
  "ber2der ber =
     (if ber = [] then Inl (BerError EmptyInput)
      else and_then (readObject ber 0 0) (\<lambda>(obj, _). Inr (EncodeTo obj [])))"

section \<open>The encoder as a function of the object\<close>

text \<open>
  \<open>lengthLength\<close> is the least number of base-256 digits (at least one) that holds the
  value, and every writer appends to the buffer it is given.
\<close>

lemma lengthLength_loop_ge: "k \<le> lengthLength_loop i k"
proof (induction i k rule: lengthLength_loop.induct)
  case (1 i k)
  then show ?case by (subst lengthLength_loop.simps) fastforce
qed

lemma lengthLength_loop_le_iff: "lengthLength_loop i k \<le> k + n \<longleftrightarrow> i < 256 ^ Suc n"
proof (induction i k arbitrary: n rule: lengthLength_loop.induct)
  case (1 i k)
  show ?case
  proof (cases "i > 255")
    case False
    have "(256::nat) * 1 \<le> 256 * 256 ^ n" by (rule mult_le_mono2) simp
    with False have "i < 256 ^ Suc n" unfolding power_Suc by linarith
    with False show ?thesis by (simp add: lengthLength_loop.simps [of i])
  next
    case True
    show ?thesis
    proof (cases n)
      case 0
      with True lengthLength_loop_ge [of "k + 1" "drop_bit 8 i"] show ?thesis
        by (simp add: lengthLength_loop.simps [of i])
    next
      case (Suc m)
      with True "1.IH" [of m] show ?thesis
        by (simp add: lengthLength_loop.simps [of i] drop_bit_eq_div div_less_iff_less_mult
            mult.commute)
    qed
  qed
qed

lemma lengthLength_ge_1: "1 \<le> lengthLength i"
  by (simp add: lengthLength_def lengthLength_loop_ge)

lemma lengthLength_le_iff: "1 \<le> n \<Longrightarrow> lengthLength i \<le> n \<longleftrightarrow> i < 256 ^ n"
  using lengthLength_loop_le_iff [of i 1 "n - 1"] by (simp add: lengthLength_def)

lemma lengthLength_fits: "i < 256 ^ lengthLength i"
  using lengthLength_le_iff [OF lengthLength_ge_1] by blast

lemma marshalLongLength_loop_eq: "marshalLongLength_loop out i n = out @ be_bytes n i"
  by (induction n arbitrary: out) simp_all

definition der_length :: "nat \<Rightarrow> bytes" where
  "der_length len = encodeLength [] len"

lemma der_length_eq:
  "der_length n = (if n < 128 then [word_of_nat n]
     else (0x80 OR word_of_nat (lengthLength n)) # be_bytes (lengthLength n) n)"
  by (simp add: der_length_def encodeLength_def marshalLongLength_def marshalLongLength_loop_eq)

lemma encodeLength_append: "encodeLength out n = out @ der_length n"
  by (simp add: der_length_eq encodeLength_def marshalLongLength_def marshalLongLength_loop_eq)

text \<open>\<open>encode obj\<close> is what \<open>EncodeTo\<close> appends.\<close>

abbreviation encode :: "asn1Object \<Rightarrow> bytes" where
  "encode obj \<equiv> EncodeTo obj []"

abbreviation encodes :: "asn1Object list \<Rightarrow> bytes" where
  "encodes objs \<equiv> concat (map encode objs)"

lemma fold_append_concat:
  "(\<And>x out. x \<in> set xs \<Longrightarrow> f x out = out @ g x) \<Longrightarrow> fold f xs out = out @ concat (map g xs)"
  by (induction xs arbitrary: out) auto

lemma EncodeTo_append: "EncodeTo obj out = out @ encode obj"
proof (induction obj arbitrary: out)
  case (Asn1Structured tag objs)
  then show ?case by (simp add: encodeLength_append Let_def)
next
  case (Asn1Primitive tag len cont)
  then show ?case by (simp add: encodeLength_append)
qed

lemma fold_EncodeTo: "fold EncodeTo objs out = out @ encodes objs"
  by (rule fold_append_concat) (rule EncodeTo_append)

lemma encode_simps:
  "encode (Asn1Structured tag objs) = tag @ der_length (length (encodes objs)) @ encodes objs"
  "encode (Asn1Primitive tag len cont) = tag @ der_length len @ cont"
  by (simp_all add: encodeLength_append Let_def fold_EncodeTo)

declare EncodeTo.simps [simp del]

end
