(* ===== verification/BerGrammar.thy ===== *)
theory BerGrammar
  imports Ber
begin

unbundle bit_operations_syntax

text \<open>
  The BER subset the transcoder accepts, written as a grammar, and the proof that
  \<open>readObject\<close> reads exactly this language: what it accepts is an encoding (soundness) and
  every encoding, with anything after it, is accepted (completeness).
\<close>

section \<open>Grammar\<close>

text \<open>Identifier octets: one byte, or \<open>0x1F\<close> in the low bits and a base-128 tail.\<close>

fun ber_tag :: "bytes \<Rightarrow> bool" where
  "ber_tag [] \<longleftrightarrow> False"
| "ber_tag (b # cs) \<longleftrightarrow>
     (if b AND 0x1F = 0x1F
      then cs \<noteq> [] \<and> (\<forall>c \<in> set (butlast cs). c \<ge> 0x80) \<and> last cs < 0x80
      else cs = [])"

text \<open>A long-form length is superfluous when it starts with a zero the reader refuses.\<close>

definition superfluous :: "bytes \<Rightarrow> bool" where
  "superfluous ls \<longleftrightarrow> ls ! 0 = 0 \<and> (length ls = 1 \<or> ls ! 1 \<le> 0x7F)"

text \<open>Definite length octets and the length they denote.\<close>

fun ber_length :: "bytes \<Rightarrow> nat \<Rightarrow> bool" where
  "ber_length [] n \<longleftrightarrow> False"
| "ber_length (l # ls) n \<longleftrightarrow>
     (if l < 0x80 then ls = [] \<and> n = unat l
      else ls \<noteq> [] \<and> length ls \<le> 4 \<and> unat l = 128 + length ls \<and>
        n = be_value ls \<and> n < 2 ^ 31 \<and> \<not> superfluous ls)"

text \<open>
  \<open>ber_tlv k bs obj\<close>: the bytes \<open>bs\<close> are an encoding of \<open>obj\<close> nested at most \<open>k\<close> deep.
  In the indefinite form no member may look like the end-of-contents marker.
\<close>

inductive ber_tlv :: "nat \<Rightarrow> bytes \<Rightarrow> asn1Object \<Rightarrow> bool"
  and ber_seq :: "bool \<Rightarrow> nat \<Rightarrow> bytes \<Rightarrow> asn1Object list \<Rightarrow> bool" where
  primitive: "ber_tag tag \<Longrightarrow> hd tag AND 0x20 = 0 \<Longrightarrow> ber_length ls (length cont) \<Longrightarrow>
    ber_tlv (Suc k) (tag @ ls @ cont) (Asn1Primitive tag (length cont) cont)"
| definite: "ber_tag tag \<Longrightarrow> hd tag AND 0x20 \<noteq> 0 \<Longrightarrow> ber_length ls (length cont) \<Longrightarrow>
    ber_seq False k cont objs \<Longrightarrow>
    ber_tlv (Suc k) (tag @ ls @ cont) (Asn1Structured tag objs)"
| indefinite: "ber_tag tag \<Longrightarrow> hd tag AND 0x20 \<noteq> 0 \<Longrightarrow> ber_seq True k cont objs \<Longrightarrow>
    ber_tlv (Suc k) (tag @ [0x80] @ cont @ [0, 0]) (Asn1Structured tag objs)"
| empty: "ber_seq eoc k [] []"
| member: "ber_tlv k b obj \<Longrightarrow> (eoc \<longrightarrow> take 2 b \<noteq> [0, 0]) \<Longrightarrow> ber_seq eoc k bs objs \<Longrightarrow>
    ber_seq eoc k (b @ bs) (obj # objs)"

section \<open>The header readers\<close>

lemma subslice_Suc: "i < j \<Longrightarrow> i < length xs \<Longrightarrow> subslice xs i j = xs ! i # subslice xs (Suc i) j"
  by (simp add: subslice_def take_Cons' flip: Cons_nth_drop_Suc)

lemma subslice_append_adjacent:
  assumes "i \<le> j" "j \<le> k"
  shows "subslice xs i k = subslice xs i j @ subslice xs j k"
proof -
  from assms have "k - i = (j - i) + (k - j)" by simp
  then have "take (k - i) (drop i xs) = take (j - i) (drop i xs) @ take (k - j) (drop (j - i) (drop i xs))"
    by (simp only: take_add)
  with assms show ?thesis by (simp add: subslice_def)
qed

lemma subslice_empty [simp]: "subslice xs i i = []"
  by (simp add: subslice_def)

lemma readHighTag_sound:
  "readHighTag ber offset t = Inr (t', off) \<Longrightarrow>
     \<exists>cs c. subslice ber offset (Suc off) = cs @ [c] \<and> (\<forall>b \<in> set cs. b \<ge> 0x80) \<and> c < 0x80"
proof (induction ber offset t rule: readHighTag.induct)
  case (1 ber offset t)
  note off = readHighTag_bounds [OF "1.prems"]
  show ?case
  proof (cases "ber ! offset \<ge> 0x80")
    case True
    with "1.prems" off have
      "readHighTag ber (offset + 1) (t * 128 + ber ! offset - 0x80) = Inr (t', off)"
      and "\<not> length ber \<le> offset + 1"
      by (subst (asm) readHighTag.simps, auto split: if_splits)+
    with True off "1.IH" [of "ber ! offset"] obtain cs c where
      "subslice ber (Suc offset) (Suc off) = cs @ [c]" "\<forall>b \<in> set cs. b \<ge> 0x80" "c < 0x80"
      by auto
    with True off show ?thesis
      by (intro exI [of _ "ber ! offset # cs"] exI [of _ c]) (auto simp: subslice_Suc [of offset])
  next
    case False
    with "1.prems" have "off = offset"
      by (subst (asm) readHighTag.simps) (auto split: if_splits)
    with False off show ?thesis
      by (intro exI [of _ "[]"] exI [of _ "ber ! offset"]) (auto simp: subslice_Suc [of offset])
  qed
qed

lemma readHighTag_complete:
  "\<forall>b \<in> set cs. b \<ge> 0x80 \<Longrightarrow> c < 0x80 \<Longrightarrow>
     \<exists>t'. readHighTag (pre @ cs @ c # post) (length pre) t = Inr (t', length pre + length cs)"
proof (induction cs arbitrary: pre t)
  case Nil
  then have "\<not> 0x80 \<le> c" by (simp add: not_le)
  then show ?case by (subst readHighTag.simps) simp
next
  case (Cons b cs)
  from Cons.IH [of "pre @ [b]" "t * 128 + b - 0x80"] Cons.prems show ?case
    by (subst readHighTag.simps) simp
qed

lemma readTag_sound:
  assumes "readTag ber offset = Inr (b, tagEnd)"
  shows "ber_tag (subslice ber offset tagEnd)"
proof -
  note bounds = readTag_bounds [OF assms]
  show ?thesis
  proof (cases "b AND 0x1F = 0x1F")
    case True
    with assms bounds obtain t where
      high: "readHighTag ber (offset + 1) 0 = Inr (t, tagEnd - 1)"
      by (auto simp: readTag_def split: if_splits)
    from readHighTag_sound [OF high] bounds
    obtain cs c where "subslice ber (Suc offset) tagEnd = cs @ [c]" "\<forall>b \<in> set cs. b \<ge> 0x80" "c < 0x80"
      by auto
    with True bounds show ?thesis by (simp add: subslice_Suc [of offset])
  next
    case False
    with assms bounds show ?thesis
      by (auto simp: readTag_def subslice_Suc [of offset] split: if_splits)
  qed
qed

lemma readTag_complete:
  assumes "ber_tag tag" "post \<noteq> []"
  shows "readTag (pre @ tag @ post) (length pre) = Inr (hd tag, length pre + length tag)"
proof (cases tag)
  case Nil
  with assms show ?thesis by simp
next
  case (Cons b cs)
  show ?thesis
  proof (cases "b AND 0x1F = 0x1F")
    case True
    with assms Cons obtain ds d where cs: "cs = ds @ [d]" "\<forall>c \<in> set ds. c \<ge> 0x80" "d < 0x80"
      by (cases cs rule: rev_cases) auto
    from readHighTag_complete [OF cs(2,3), of "pre @ [b]" post 0] obtain t where
      "readHighTag (pre @ b # ds @ d # post) (Suc (length pre)) 0 = Inr (t, Suc (length pre + length ds))"
      by auto
    with True Cons cs(1) \<open>post \<noteq> []\<close> show ?thesis by (simp add: readTag_def)
  next
    case False
    with assms Cons show ?thesis by (simp add: readTag_def)
  qed
qed

lemma readLengthBytes_eq:
  "offset + n \<le> length ber \<Longrightarrow> readLengthBytes ber offset n (int a) =
     Inr (int (a * 256 ^ n + be_value (subslice ber offset (offset + n))), offset + n)"
proof (induction n arbitrary: offset a)
  case (Suc n)
  have "readLengthBytes ber offset (Suc n) (int a) =
      readLengthBytes ber (Suc offset) n (int (a * 256 + unat (ber ! offset)))"
    using Suc.prems by simp
  also have "\<dots> = Inr (int ((a * 256 + unat (ber ! offset)) * 256 ^ n
      + be_value (subslice ber (Suc offset) (Suc offset + n))), Suc offset + n)"
    using Suc.prems by (intro Suc.IH) simp
  finally show ?case
    using Suc.prems
    by (simp add: subslice_Suc [of offset] be_value_Cons algebra_simps del: of_nat_unat)
qed simp

lemma unat_and_7F: "unat (l AND 0x7F :: byte) = unat l mod 128"
proof -
  have "(0x7F :: byte) = mask 7" by (simp add: mask_eq_exp_minus_1)
  then have "l AND 0x7F = take_bit 7 l" by (simp add: take_bit_eq_mask)
  then show ?thesis by (simp add: unsigned_take_bit_eq) (simp add: take_bit_eq_mod)
qed

lemma be_value_31_bits:
  assumes "ls \<noteq> []" "length ls \<le> 4"
  shows "be_value ls < 2 ^ 31 \<longleftrightarrow> \<not> (length ls = 4 \<and> unat (ls ! 0) > 0x7F)"
proof (cases "length ls = 4")
  case True
  with assms obtain b bs where ls: "ls = b # bs" "length bs = 3" by (cases ls) auto
  from be_value_less [of bs] ls(2) have "be_value bs < 2 ^ 24" by simp
  then have "unat b * 2 ^ 24 + be_value bs < 2 ^ 31 \<longleftrightarrow> unat b \<le> 0x7F" by auto
  with ls show ?thesis by (auto simp: be_value_Cons)
next
  case False
  with assms have "length ls \<le> 3" by simp
  then have "(256::nat) ^ length ls \<le> 256 ^ 3" by (intro power_increasing) auto
  with be_value_less [of ls] have "be_value ls < 2 ^ 31" by simp
  with False show ?thesis by simp
qed

lemma nth_subslice: "i + k < j \<Longrightarrow> j \<le> length xs \<Longrightarrow> subslice xs i j ! k = xs ! (i + k)"
  by (simp add: subslice_def)

lemma hasLeadingZero_eq:
  assumes "0 < n" "offset + n \<le> length ber"
  shows "hasLeadingZero ber offset n = Inr (superfluous (subslice ber offset (offset + n)))"
proof (cases "n = 1")
  case True
  with assms show ?thesis
    by (simp add: hasLeadingZero_def superfluous_def nth_subslice)
next
  case False
  with assms show ?thesis
    using nth_subslice [of offset 0 "offset + n" ber] nth_subslice [of offset 1 "offset + n" ber]
    by (simp add: hasLeadingZero_def superfluous_def)
qed

lemma readLongLength_iff:
  assumes "0 < n"
  shows "readLongLength ber offset n = Inr (len, off) \<longleftrightarrow>
    n \<le> 4 \<and> offset + n \<le> length ber \<and> off = offset + n \<and>
    (let ls = subslice ber offset (offset + n) in
      len = int (be_value ls) \<and> be_value ls < 2 ^ 31 \<and> \<not> superfluous ls)"
proof (cases "n \<le> 4 \<and> offset + n \<le> length ber")
  case True
  let ?ls = "subslice ber offset (offset + n)"
  from True have len: "length ?ls = n" by simp
  with assms have "?ls \<noteq> []" by auto
  from be_value_31_bits [OF this] len True assms
  have small: "be_value ?ls < 2147483648 \<longleftrightarrow> \<not> (n = 4 \<and> unat (ber ! offset) > 0x7F)"
    by (simp add: nth_subslice)
  from True show ?thesis
    using readLengthBytes_eq [of offset n ber 0] hasLeadingZero_eq [of n offset ber] assms
    by (simp add: readLongLength_def small Let_def) auto
next
  case False
  then show ?thesis by (auto simp: readLongLength_def split: if_splits)
qed

lemma unat_msb_clear:
  assumes "l \<ge> 0x80"
  shows "unat (l AND 0x7F :: byte) = unat l - 128"
proof -
  from assms have "128 \<le> unat l" by (simp add: word_le_nat_alt)
  with unat_byte_less [of l] have "unat l - 128 < 128" by linarith
  with \<open>128 \<le> unat l\<close> have "unat l mod 128 = unat l - 128" by (simp add: le_mod_geq)
  then show ?thesis by (simp add: unat_and_7F)
qed

text \<open>The length octets that are read are a definite length, or the indefinite marker.\<close>

lemma readLength_sound:
  assumes "readLength ber offset = Inr (len, indef, off)"
  shows "if indef then off = offset + 1 \<and> ber ! offset = 0x80 \<and> off < length ber
    else ber_length (subslice ber offset off) (nat len)"
proof -
  let ?l = "ber ! offset"
  note bounds = readLength_bounds [OF assms]
  from bounds have off: "subslice ber offset off = ?l # subslice ber (Suc offset) off"
    by (intro subslice_Suc) auto
  consider "?l > 0x80" | "?l = 0x80" | "?l < 0x80" by (cases "?l" "0x80 :: byte" rule: linorder_cases) auto
  then show ?thesis
  proof cases
    case 1
    then have n: "unat (?l AND 0x7F) = unat ?l - 128" "0 < unat ?l - 128"
      using unat_msb_clear [of ?l] by (simp_all add: word_less_nat_alt word_le_nat_alt)
    from 1 assms have "\<not> indef" and long: "readLongLength ber (offset + 1) (unat ?l - 128) = Inr (len, off)"
      by (auto simp: readLength_def Let_def n split: if_splits)
    from long n have "length (subslice ber (Suc offset) off) = unat ?l - 128"
      by (auto simp: readLongLength_iff Let_def)
    with n have "subslice ber (Suc offset) off \<noteq> []" by auto
    with long n 1 have "ber_length (?l # subslice ber (Suc offset) off) (nat len)"
      by (auto simp: readLongLength_iff Let_def not_less word_less_nat_alt)
    with \<open>\<not> indef\<close> off show ?thesis by simp
  next
    case 2
    with assms show ?thesis by (auto simp: readLength_def Let_def split: if_splits)
  next
    case 3
    with assms have "\<not> indef" "len = int (unat ?l)" "off = offset + 1"
      by (auto simp: readLength_def Let_def split: if_splits)
    with 3 off show ?thesis by simp
  qed
qed

lemma readLength_complete:
  assumes "ber_length ls n" "n \<le> length rest"
  shows "readLength (pre @ ls @ rest) (length pre) = Inr (int n, False, length pre + length ls)"
proof (cases ls)
  case Nil
  with assms show ?thesis by simp
next
  case (Cons l ls')
  show ?thesis
  proof (cases "l < 0x80")
    case True
    with Cons assms show ?thesis
      by (auto simp: readLength_def Let_def not_le simp del: of_nat_unat)
  next
    case False
    with Cons assms have long: "ls' \<noteq> []" "length ls' \<le> 4" "unat l = 128 + length ls'"
      "n = be_value ls'" "n < 2 ^ 31" "\<not> superfluous ls'"
      by auto
    then have "l > 0x80" by (simp add: word_less_nat_alt)
    have sub: "subslice (pre @ l # ls' @ rest) (length pre + 1) (length pre + 1 + length ls') = ls'"
      using subslice_middle [of "pre @ [l]" ls' rest] by simp
    have "readLongLength (pre @ l # ls' @ rest) (length pre + 1) (length ls')
        = Inr (int n, length pre + 1 + length ls')"
      using long sub by (subst readLongLength_iff) (auto simp: Let_def)
    with Cons long \<open>l > 0x80\<close> assms(2) show ?thesis
      by (simp add: readLength_def Let_def unat_msb_clear)
  qed
qed

section \<open>Soundness\<close>

lemma isIndefiniteTermination_Inr:
  "isIndefiniteTermination ber offset = Inr t \<longleftrightarrow>
     offset + 2 \<le> length ber \<and> t = (ber ! offset = 0 \<and> ber ! (offset + 1) = 0)"
  by (auto simp: isIndefiniteTermination_def)

lemma readObject_InrE:
  assumes "readObject ber offset depth = Inr (obj, off)"
  obtains (primitive) b tagEnd len start where
      "depth \<le> maxNestingDepth" "readTag ber offset = Inr (b, tagEnd)"
      "readLength ber tagEnd = Inr (len, False, start)" "b AND 0x20 = 0"
      "off = start + nat len"
      "obj = Asn1Primitive (subslice ber offset tagEnd) (nat len)
        (subslice ber start (start + nat len))"
  | (definite) b tagEnd len start objs stop' where
      "depth \<le> maxNestingDepth" "readTag ber offset = Inr (b, tagEnd)"
      "readLength ber tagEnd = Inr (len, False, start)" "b AND 0x20 \<noteq> 0"
      "off = start + nat len"
      "readSubObjects (take (start + nat len) ber) start (start + nat len) False depth
        = Inr (objs, stop')"
      "obj = Asn1Structured (subslice ber offset tagEnd) objs"
  | (indefinite) b tagEnd start objs stop' where
      "depth \<le> maxNestingDepth" "readTag ber offset = Inr (b, tagEnd)"
      "readLength ber tagEnd = Inr (0, True, start)" "b AND 0x20 \<noteq> 0"
      "readSubObjects ber start start True depth = Inr (objs, stop')" "off = stop' + 2"
      "obj = Asn1Structured (subslice ber offset tagEnd) objs"
proof -
  from assms obtain b tagEnd len indef start where
    depth: "depth \<le> maxNestingDepth" and tag: "readTag ber offset = Inr (b, tagEnd)"
    and len: "readLength ber tagEnd = Inr (len, indef, start)"
    by (subst (asm) readObject.simps) (auto simp: Let_def split: if_splits)
  from readLength_bounds [OF len] have "indef \<longrightarrow> len = 0" by simp
  note unfolded = assms [unfolded readObject.simps [of ber]] and facts = depth tag len this
  show ?thesis
  proof (cases indef)
    case True
    with unfolded facts show ?thesis
      by (auto simp: Let_def split: if_splits intro!: that(3) [OF depth tag])
  next
    case False
    note len' = len [unfolded False [THEN eq_False [THEN iffD2]]]
    show ?thesis
    proof (cases "b AND 0x20 = 0")
      case True
      with \<open>\<not> indef\<close> unfolded facts show ?thesis
        by (auto simp: Let_def split: if_splits intro!: that(1) [OF depth tag len'])
    next
      case False
      with \<open>\<not> indef\<close> unfolded facts show ?thesis
        by (auto simp: Let_def split: if_splits intro!: that(2) [OF depth tag len'])
    qed
  qed
qed

lemma ber_tag_nonempty: "ber_tag tag \<Longrightarrow> 1 \<le> length tag"
  by (cases tag) auto

lemma ber_length_nonempty: "ber_length ls n \<Longrightarrow> 1 \<le> length ls"
  by (cases ls) auto

lemma ber_tlv_length: "ber_tlv k bs obj \<Longrightarrow> 2 \<le> length bs"
  by (erule ber_tlv.cases) (auto dest!: ber_tag_nonempty ber_length_nonempty)

lemma subslice_header:
  assumes "i \<le> j" "j \<le> k" "k \<le> l" "l \<le> length xs"
  shows "subslice xs i l = subslice xs i j @ subslice xs j k @ subslice xs k l"
  using assms subslice_append_adjacent [of i j l xs] subslice_append_adjacent [of j k l xs] by simp

lemma hd_subslice: "i < j \<Longrightarrow> j \<le> length xs \<Longrightarrow> hd (subslice xs i j) = xs ! i"
  by (simp add: subslice_Suc)

lemma reader_sound:
  "(\<And>obj off. readObject ber offset depth = Inr (obj, off) \<Longrightarrow>
      off \<le> length ber \<and> offset < off \<and>
      ber_tlv (Suc maxNestingDepth - depth) (subslice ber offset off) obj)"
  "(\<And>objs off. readSubObjects ber offset contentEnd indef depth = Inr (objs, off) \<Longrightarrow>
      depth \<le> maxNestingDepth \<Longrightarrow> (\<not> indef \<Longrightarrow> contentEnd = length ber) \<Longrightarrow> offset \<le> length ber \<Longrightarrow>
      offset \<le> off \<and> off \<le> length ber \<and>
      ber_seq indef (maxNestingDepth - depth) (subslice ber offset off) objs \<and>
      (if indef then off + 2 \<le> length ber \<and> subslice ber off (off + 2) = [0, 0]
       else off = contentEnd))"
proof (induction ber offset depth and ber offset contentEnd indef depth
    rule: readObject_readSubObjects.induct)
  case (1 ber offset depth)
  have IH: "start \<le> fin \<and> fin \<le> length ber' \<and>
      ber_seq indef (maxNestingDepth - depth) (subslice ber' start fin) objs \<and>
      (if indef then fin + 2 \<le> length ber' \<and> subslice ber' fin (fin + 2) = [0, 0]
       else fin = start + nat len)"
    if "depth \<le> maxNestingDepth" "readTag ber offset = Inr (b, tagEnd)"
      "readLength ber tagEnd = Inr (len, indef, start)" "b AND 0x20 \<noteq> 0"
      "(if indef then Inr ber else go_slice ber 0 (start + nat len)) = Inr ber'"
      "readSubObjects ber' start (start + nat len) indef depth = Inr (objs, fin)"
      "\<not> indef \<Longrightarrow> start + nat len = length ber'" "start \<le> length ber'"
    for b tagEnd len indef start ber' objs fin
    using that readTag_bounds [OF that(2)]
    by (intro "1.IH" [OF _ that(2) refl that(3) refl refl refl refl _ _ _ that(5,6,1)]) auto
  from "1.prems" show ?case
  proof (cases rule: readObject_InrE)
    case (primitive b tagEnd len start)
    note tag = readTag_bounds [OF primitive(2)] readTag_sound [OF primitive(2)]
    note len = readLength_bounds [OF primitive(3)] readLength_sound [OF primitive(3)]
    have "ber_tlv (Suc (maxNestingDepth - depth))
        (subslice ber offset tagEnd @ subslice ber tagEnd start @ subslice ber start off) obj"
      using ber_tlv_ber_seq.primitive [of "subslice ber offset tagEnd" "subslice ber tagEnd start"
          "subslice ber start off" "maxNestingDepth - depth"] tag len primitive
      by (simp add: hd_subslice)
    with tag len primitive show ?thesis
      by (auto simp: subslice_header [of offset tagEnd start "start + nat len"] Suc_diff_le)
  next
    case (definite b tagEnd len start objs stop')
    note tag = readTag_bounds [OF definite(2)] readTag_sound [OF definite(2)]
    note len = readLength_bounds [OF definite(3)] readLength_sound [OF definite(3)]
    have seq: "ber_seq False (maxNestingDepth - depth) (subslice ber start off) objs"
      using IH [OF definite(1-4), of "take (start + nat len) ber" objs stop'] len definite
      by (auto simp: min.absorb2)
    have "ber_tlv (Suc (maxNestingDepth - depth))
        (subslice ber offset tagEnd @ subslice ber tagEnd start @ subslice ber start off) obj"
      using ber_tlv_ber_seq.definite [of "subslice ber offset tagEnd" "subslice ber tagEnd start"
          "subslice ber start off" "maxNestingDepth - depth" objs] tag len definite seq
      by (simp add: hd_subslice)
    with tag len definite show ?thesis
      by (auto simp: subslice_header [of offset tagEnd start "start + nat len"] Suc_diff_le)
  next
    case (indefinite b tagEnd start objs stop')
    note tag = readTag_bounds [OF indefinite(2)] readTag_sound [OF indefinite(2)]
    note len = readLength_bounds [OF indefinite(3)] readLength_sound [OF indefinite(3)]
    have seq: "ber_seq True (maxNestingDepth - depth) (subslice ber start stop') objs"
      and eoc: "start \<le> stop'" "off \<le> length ber" "subslice ber stop' off = [0, 0]"
      using IH [OF indefinite(1-4), of ber objs stop'] len indefinite by auto
    have "ber_tlv (Suc (maxNestingDepth - depth))
        (subslice ber offset tagEnd @ [0x80] @ subslice ber start stop' @ [0, 0]) obj"
      using ber_tlv_ber_seq.indefinite [of "subslice ber offset tagEnd"
          "maxNestingDepth - depth" "subslice ber start stop'" objs] tag len indefinite seq
      by (simp add: hd_subslice)
    moreover have "subslice ber tagEnd start = [0x80]"
      using len tag by (simp add: subslice_Suc)
    moreover have "subslice ber start off = subslice ber start stop' @ [0, 0]"
      using eoc indefinite(6) subslice_append_adjacent [of start stop' off ber] by simp
    ultimately show ?thesis
      using tag len eoc indefinite
      by (auto simp: subslice_header [of offset tagEnd "Suc tagEnd" "Suc (Suc stop')"] Suc_diff_le)
  qed
next
  case (2 ber offset contentEnd indef depth)
  show ?case
  proof (cases "(offset < contentEnd \<or> indef) \<and>
      (if indef then isIndefiniteTermination ber offset else Inr False) = Inr False")
    case True
    with "2.prems"(1) obtain obj mid objs' where
      obj: "readObject ber offset (depth + 1) = Inr (obj, mid)" and
      rest: "readSubObjects ber mid contentEnd indef depth = Inr (objs', off)" and
      objs: "objs = obj # objs'"
      by (subst (asm) readSubObjects.simps) auto
    have head: "mid \<le> length ber" "offset < mid"
      "ber_tlv (maxNestingDepth - depth) (subslice ber offset mid) obj"
      using "2.IH"(1) [OF True [THEN conjunct1] True [THEN conjunct2] _ obj] by auto
    have tail: "mid \<le> off" "off \<le> length ber"
      "ber_seq indef (maxNestingDepth - depth) (subslice ber mid off) objs'"
      "if indef then off + 2 \<le> length ber \<and> subslice ber off (off + 2) = [0, 0] else off = contentEnd"
      using "2.IH"(2) [OF True [THEN conjunct1] True [THEN conjunct2] _ obj refl rest "2.prems"(2,3)]
        head(1) by (auto split: if_splits)
    have "indef \<longrightarrow> take 2 (subslice ber offset mid) \<noteq> [0, 0]"
      using ber_tlv_length [OF head(3)] head(1,2) True
      by (auto simp: subslice_Suc isIndefiniteTermination_Inr)
    then have "ber_seq indef (maxNestingDepth - depth) (subslice ber offset mid @ subslice ber mid off) objs"
      unfolding objs using head(3) tail(3) by (intro ber_tlv_ber_seq.member)
    with head tail show ?thesis
      by (simp add: subslice_append_adjacent [of offset mid off])
  next
    case False
    with "2.prems"(1) have "objs = []" "off = offset"
      and "indef \<longrightarrow> isIndefiniteTermination ber offset = Inr True" "\<not> indef \<longrightarrow> contentEnd \<le> offset"
      by (subst (asm) readSubObjects.simps, auto split: if_splits)+
    with "2.prems" show ?thesis
      by (auto simp: subslice_Suc isIndefiniteTermination_Inr intro: ber_tlv_ber_seq.empty)
  qed
qed

section \<open>Completeness\<close>

lemma reader_complete:
  "ber_tlv k bs obj \<Longrightarrow> k + depth \<le> Suc maxNestingDepth \<Longrightarrow>
     readObject (pre @ bs @ post) (length pre) depth = Inr (obj, length pre + length bs)"
  "ber_seq eoc k bs objs \<Longrightarrow> k + depth \<le> maxNestingDepth \<Longrightarrow>
     readSubObjects (pre @ bs @ (if eoc then 0 # 0 # post else [])) (length pre)
       (if eoc then contentEnd else length pre + length bs) eoc depth =
     Inr (objs, length pre + length bs)"
proof (induction arbitrary: depth pre post and depth pre post contentEnd rule: ber_tlv_ber_seq.inducts)
  case (primitive tag ls cont k)
  have "readLength (pre @ tag @ ls @ cont @ post) (length pre + length tag)
      = Inr (int (length cont), False, length pre + length tag + length ls)"
    using readLength_complete [of ls "length cont" "cont @ post" "pre @ tag"] primitive by simp
  moreover have "readTag (pre @ tag @ ls @ cont @ post) (length pre) = Inr (hd tag, length pre + length tag)"
    using ber_length_nonempty primitive by (intro readTag_complete) auto
  ultimately show ?case
    using primitive by (subst readObject.simps) (auto simp: Let_def subslice_def)
next
  case (definite tag ls cont k objs)
  let ?buf = "pre @ tag @ ls @ cont @ post"
  have "readLength ?buf (length pre + length tag)
      = Inr (int (length cont), False, length pre + length tag + length ls)"
    using readLength_complete [of ls "length cont" "cont @ post" "pre @ tag"] definite by simp
  moreover have "readSubObjects (pre @ tag @ ls @ cont) (length pre + length tag + length ls)
      (length pre + length tag + length ls + length cont) False depth
      = Inr (objs, length pre + length tag + length ls + length cont)"
    using definite.IH [of depth "pre @ tag @ ls"] definite.prems by (simp add: add.assoc)
  moreover have "readTag ?buf (length pre) = Inr (hd tag, length pre + length tag)"
    using ber_length_nonempty definite by (intro readTag_complete) auto
  ultimately show ?case
    using definite by (subst readObject.simps) (auto simp: Let_def subslice_def add.assoc)
next
  case (indefinite tag k cont objs)
  let ?buf = "pre @ tag @ [0x80] @ cont @ [0, 0] @ post"
  have "readLength ?buf (length pre + length tag) = Inr (0, True, length pre + length tag + 1)"
    by (simp add: readLength_def Let_def nth_append)
  moreover have "readSubObjects ?buf (length pre + length tag + 1) (length pre + length tag + 1) True depth
      = Inr (objs, length pre + length tag + 1 + length cont)"
    using indefinite.IH [of depth "pre @ tag @ [0x80]" post "length pre + length tag + 1"]
      indefinite.prems by simp
  moreover have "readTag ?buf (length pre) = Inr (hd tag, length pre + length tag)"
    using indefinite by (intro readTag_complete) auto
  ultimately show ?case
    using indefinite by (subst readObject.simps) (auto simp: Let_def subslice_def)
next
  case (empty eoc k)
  show ?case
    by (subst readSubObjects.simps) (simp add: isIndefiniteTermination_def nth_append)
next
  case (member k b obj eoc bs objs)
  let ?tail = "if eoc then 0 # 0 # post else []"
  let ?stop = "if eoc then contentEnd else length pre + length (b @ bs)"
  have "readObject (pre @ b @ bs @ ?tail) (length pre) (depth + 1) = Inr (obj, length pre + length b)"
    using member.IH(1) [of "depth + 1" pre "bs @ ?tail"] member.prems by simp
  moreover have "readSubObjects (pre @ b @ bs @ ?tail) (length pre + length b) ?stop eoc depth
      = Inr (objs, length pre + length b + length bs)"
    using member.IH(2) [of depth "pre @ b" post contentEnd] member.prems
    by (cases eoc) (simp_all add: add.assoc)
  moreover have "eoc \<longrightarrow> isIndefiniteTermination (pre @ b @ bs @ ?tail) (length pre) = Inr False"
  proof -
    from ber_tlv_length [OF member.hyps(1)] obtain x y b' where "b = x # y # b'"
      by (cases b; cases "tl b") auto
    with member.hyps show ?thesis by (simp add: isIndefiniteTermination_def nth_append)
  qed
  ultimately show ?case
    using ber_tlv_length [OF member.hyps(1)]
    by (subst readSubObjects.simps) (auto simp: add.assoc)
qed

end
