(* ===== verification/BerDer.thy ===== *)
theory BerDer
  imports BerGrammar
begin

unbundle bit_operations_syntax

text \<open>
  What the transcoder guarantees: the reader accepts exactly the grammar, the encoder emits
  the definite form with shortest lengths, reading back what was written gives the same
  object, and \<open>ber2der\<close> is idempotent, bounded in depth, free of run-time panics and blind
  to what follows the first object.
\<close>

section \<open>The reader against the grammar\<close>

lemma reader_exact_aux:
  "readObject ber offset depth = Inr (obj, off) \<longleftrightarrow>
     offset \<le> off \<and> off \<le> length ber \<and>
     ber_tlv (Suc maxNestingDepth - depth) (subslice ber offset off) obj" (is "?l \<longleftrightarrow> ?r")
proof
  assume ?l
  from reader_sound(1) [OF this] show ?r by auto
next
  assume ?r
  moreover from this have "depth \<le> maxNestingDepth" by (auto elim: ber_tlv.cases)
  moreover have "ber = take offset ber @ subslice ber offset off @ drop off ber"
    using \<open>?r\<close> subslice_append_adjacent [of 0 offset off ber] append_take_drop_id [of off ber]
    by simp
  ultimately show ?l
    using reader_complete(1) [of "Suc maxNestingDepth - depth" "subslice ber offset off" obj depth
        "take offset ber" "drop off ber"]
    by simp
qed

lemma reader_append:
  "readObject ber offset depth = Inr (obj, off) \<Longrightarrow>
     readObject (ber @ trailing) offset depth = Inr (obj, off)"
  by (simp add: reader_exact_aux)

section \<open>Lengths\<close>

lemma be_bytes_nonzero:
  assumes "256 ^ n \<le> i" "i < 256 ^ Suc n"
  shows "be_bytes (Suc n) i ! 0 \<noteq> 0"
proof -
  have "i div 256 ^ n < 256" using assms by (simp add: div_less_iff_less_mult)
  moreover have "0 < i div 256 ^ n" using assms(1) by (simp add: div_greater_zero_iff)
  ultimately show ?thesis
    by (simp add: drop_bit_eq_div power_mult mult.commute [of n] word_unat_eq_iff)
qed

lemma der_length_is_length:
  assumes "n < 2 ^ 31"
  shows "ber_length (der_length n) n"
proof (cases "n < 128")
  case True
  then show ?thesis by (simp add: der_length_eq word_less_nat_alt)
next
  case False
  define L where "L = lengthLength n"
  have L: "1 \<le> L" "L \<le> 4"
    using assms lengthLength_ge_1 lengthLength_le_iff [of 4 n] by (auto simp: L_def)
  have fits: "n < 256 ^ L" unfolding L_def by (rule lengthLength_fits)
  have "256 ^ (L - 1) \<le> n"
  proof (cases "L = 1")
    case False
    with L have "\<not> L \<le> L - 1" "1 \<le> L - 1" by simp_all
    with lengthLength_le_iff [of "L - 1" n] show ?thesis by (simp flip: L_def)
  qed (use \<open>\<not> n < 128\<close> in simp)
  with fits L be_bytes_nonzero [of "L - 1" n] have "\<not> superfluous (be_bytes L n)"
    by (simp add: superfluous_def)
  moreover from L have "unat (0x80 OR word_of_nat L :: byte) = 128 + L \<and> \<not> (0x80 OR word_of_nat L :: byte) < 0x80"
  proof -
    from L have "L = 1 \<or> L = 2 \<or> L = 3 \<or> L = 4" by arith
    then show ?thesis by (elim disjE) simp_all
  qed
  moreover have "be_bytes L n \<noteq> []" using L by (cases L) auto
  ultimately show ?thesis
    using False L fits assms
    by (auto simp: der_length_eq be_value_be_bytes simp flip: L_def)
qed

lemma der_length_shortest:
  assumes "ber_length ls n"
  shows "length (der_length n) \<le> length ls"
proof (cases ls)
  case (Cons l ls')
  show ?thesis
  proof (cases "n < 128")
    case False
    with assms Cons have "ls' \<noteq> []" "n = be_value ls'"
      by (auto simp: word_less_nat_alt split: if_splits)
    with be_value_less [of ls'] have "lengthLength n \<le> length ls'"
      by (simp add: lengthLength_le_iff Suc_le_eq)
    with False Cons show ?thesis by (simp add: der_length_eq)
  qed (simp add: der_length_eq Cons)
qed (use assms in simp)

section \<open>The encoder against the grammar\<close>

text \<open>
  Objects whose encoding the reader takes back: well-formed identifier octets, a length field
  that is the length of the content, and no content of \<open>2 ^ 31\<close> bytes or more.
\<close>

fun der_ok :: "nat \<Rightarrow> asn1Object \<Rightarrow> bool" where
  "der_ok 0 obj \<longleftrightarrow> False"
| "der_ok (Suc k) (Asn1Primitive tag len cont) \<longleftrightarrow>
     ber_tag tag \<and> hd tag AND 0x20 = 0 \<and> len = length cont \<and> len < 2 ^ 31"
| "der_ok (Suc k) (Asn1Structured tag objs) \<longleftrightarrow>
     ber_tag tag \<and> hd tag AND 0x20 \<noteq> 0 \<and> (\<forall>obj \<in> set objs. der_ok k obj) \<and>
     length (encodes objs) < 2 ^ 31"

lemma encodes_seq:
  "\<forall>obj \<in> set objs. ber_tlv k (encode obj) obj \<Longrightarrow> ber_seq False k (encodes objs) objs"
  by (induction objs) (auto intro: ber_tlv_ber_seq.intros)

lemma der_ok_encodes: "der_ok k obj \<Longrightarrow> ber_tlv k (encode obj) obj"
proof (induction k obj rule: der_ok.induct)
  case (2 k tag len cont)
  then show ?case
    by (auto simp: encode_simps intro!: ber_tlv_ber_seq.primitive der_length_is_length)
next
  case (3 k tag objs)
  then show ?case
    by (auto simp: encode_simps intro!: ber_tlv_ber_seq.definite der_length_is_length encodes_seq)
qed simp

lemma length_encode_member: "obj \<in> set objs \<Longrightarrow> length (encode obj) \<le> length (encodes objs)"
  by (induction objs) auto

lemma read_der_ok:
  "ber_tlv k bs obj \<Longrightarrow> length (encode obj) < 2 ^ 31 \<Longrightarrow> der_ok k obj"
  "ber_seq eoc k bs objs \<Longrightarrow> length (encodes objs) < 2 ^ 31 \<Longrightarrow> \<forall>obj \<in> set objs. der_ok k obj"
  by (induction rule: ber_tlv_ber_seq.inducts) (auto simp: encode_simps)

definition readFrom :: "nat \<Rightarrow> bytes \<Rightarrow> (asn1Object \<times> bytes) result" where
  "readFrom depth bs = and_then (readObject bs 0 depth) (\<lambda>(obj, off). Inr (obj, drop off bs))"

interpretation ber: codec encode "readFrom 0" "der_ok (Suc maxNestingDepth)"
proof unfold_locales
  fix obj rest
  assume "der_ok (Suc maxNestingDepth) obj"
  from reader_complete(1) [OF der_ok_encodes [OF this], of 0 "[]" rest]
  show "readFrom 0 (encode obj @ rest) = Inr (obj, rest)" by (simp add: readFrom_def)
qed

section \<open>Nesting\<close>

fun height :: "asn1Object \<Rightarrow> nat" where
  "height (Asn1Primitive tag len cont) = 1"
| "height (Asn1Structured tag objs) = Suc (foldr max (map height objs) 0)"

lemma foldr_max_le: "foldr max ns 0 \<le> (k::nat) \<longleftrightarrow> (\<forall>n \<in> set ns. n \<le> k)"
  by (induction ns) auto

lemma ber_tlv_height:
  "ber_tlv k bs obj \<Longrightarrow> height obj \<le> k"
  "ber_seq eoc k bs objs \<Longrightarrow> \<forall>obj \<in> set objs. height obj \<le> k"
  by (induction rule: ber_tlv_ber_seq.inducts) (auto simp: foldr_max_le)

section \<open>No run-time panic\<close>

lemma no_panic_byte_at [no_panic_rules]: "i < length ber \<Longrightarrow> no_panic (byte_at ber i)"
  by simp

lemma no_panic_go_slice: "i \<le> j \<Longrightarrow> j \<le> length xs \<Longrightarrow> no_panic (go_slice xs i j)"
  by simp

lemma no_panic_readHighTag: "offset < length ber \<Longrightarrow> no_panic (readHighTag ber offset t)"
proof (induction ber offset t rule: readHighTag.induct)
  case (1 ber offset t)
  then show ?case
    by (subst readHighTag.simps) (auto intro!: no_panic_rules)
qed

lemma no_panic_readTag: "no_panic (readTag ber offset)"
  by (auto simp: readTag_def intro!: no_panic_rules no_panic_readHighTag)

lemma no_panic_readLengthBytes: "offset + n \<le> length ber \<Longrightarrow> no_panic (readLengthBytes ber offset n len)"
  by (induction n arbitrary: offset len) (auto intro!: no_panic_rules)

lemma no_panic_readLongLength:
  assumes "offset < length ber" "0 < n"
  shows "no_panic (readLongLength ber offset n)"
  using assms
  by (auto simp: readLongLength_def hasLeadingZero_eq intro!: no_panic_rules no_panic_readLengthBytes)

lemma no_panic_readLength: "offset < length ber \<Longrightarrow> no_panic (readLength ber offset)"
  using unat_msb_clear [of "ber ! offset"]
  by (auto simp: readLength_def Let_def word_less_nat_alt word_le_nat_alt
      intro!: no_panic_rules no_panic_readLongLength)

lemma no_panic_isIndefiniteTermination: "no_panic (isIndefiniteTermination ber offset)"
  by (auto simp: isIndefiniteTermination_def intro!: no_panic_rules)

lemma no_panic_reader:
  "no_panic (readObject ber offset depth)"
  "no_panic (readSubObjects ber offset contentEnd indefinite depth)"
proof (induction ber offset depth and ber offset contentEnd indefinite depth
    rule: readObject_readSubObjects.induct)
  case (1 ber offset depth)
  have sub: "no_panic (readSubObjects ber' start (start + nat len) ind depth)"
    if "\<not> depth > maxNestingDepth" "readTag ber offset = Inr (b, tagEnd)"
      "readLength ber tagEnd = Inr (len, ind, start)" "b AND 0x20 \<noteq> 0"
      "ber' = (if ind then ber else take (start + nat len) ber)" for b tagEnd len ind start ber'
    using readTag_bounds [OF that(2)] readLength_bounds [OF that(3)] that(4,5)
    by (intro "1.IH" [OF that(1,2) refl that(3) refl refl refl refl]) auto
  show ?case
  proof (cases "readTag ber offset")
    case (Inl e)
    with no_panic_readTag [of ber offset] show ?thesis by (subst readObject.simps) simp
  next
    case (Inr bt)
    then obtain b tagEnd where tag: "readTag ber offset = Inr (b, tagEnd)" by (cases bt) simp
    note tagEnd = readTag_bounds [OF tag]
    show ?thesis
    proof (cases "readLength ber tagEnd")
      case (Inl e)
      with no_panic_readLength [of tagEnd ber] tag tagEnd show ?thesis
        by (subst readObject.simps) simp
    next
      case (Inr ll)
      then obtain len ind start where len: "readLength ber tagEnd = Inr (len, ind, start)"
        by (cases ll) auto
      show ?thesis
        using tagEnd readLength_bounds [OF len] sub [OF _ tag len]
        by (subst readObject.simps) (auto simp: tag len Let_def intro!: no_panic_and_then)
    qed
  qed
next
  case (2 ber offset contentEnd indefinite depth)
  let ?check = "if indefinite then isIndefiniteTermination ber offset else Inr False"
  have child: "no_panic (readObject ber offset (Suc depth))"
    if "offset < contentEnd \<or> indefinite" "?check = Inr False"
    using "2.IH"(1) [OF that] by simp
  have rest: "no_panic (readSubObjects ber off contentEnd ind depth)"
    if "readObject ber offset (Suc depth) = Inr (obj, off)"
      "offset < contentEnd \<or> indefinite" "?check = Inr False" "ind = indefinite" for obj off ind
    using "2.IH"(2) [OF that(2,3), of "(obj, off)" obj off] that(1,4) by simp
  show ?case
    using no_panic_isIndefiniteTermination [of ber offset]
    by (subst readSubObjects.simps) (auto intro!: no_panic_and_then child rest)
qed

section \<open>Properties\<close>

text \<open>
  C1: \<open>readObject\<close> accepts a position of the buffer exactly when the bytes from there to the
  offset it returns are a BER encoding, nested within the depth that is left, and it returns
  the object these bytes encode.
\<close>

theorem reader_exact:
  "readObject ber offset depth = Inr (obj, off) \<longleftrightarrow>
     offset \<le> off \<and> off \<le> length ber \<and>
     ber_tlv (Suc maxNestingDepth - depth) (subslice ber offset off) obj"
  by (rule reader_exact_aux)

text \<open>
  C2: \<open>ber2der\<close> never panics: every byte it indexes and every slice it takes lies inside the
  buffer, whatever the input, and so all its failures are returned errors.
\<close>

theorem ber2der_no_panic: "no_panic (ber2der ber)"
  by (auto simp: ber2der_def intro!: no_panic_rules no_panic_reader)

text \<open>
  C3: \<open>ber2der\<close> is idempotent: its output is left unchanged, provided the output is shorter
  than \<open>2 ^ 31\<close> bytes, the largest length the reader takes.
\<close>

theorem ber2der_idempotent:
  assumes "ber2der ber = Inr der" and "length der < 2 ^ 31"
  shows "ber2der der = Inr der"
proof -
  from assms(1) obtain obj off where obj: "readObject ber 0 0 = Inr (obj, off)" and der: "der = encode obj"
    by (auto simp: ber2der_def split: if_splits)
  from obj have "ber_tlv (Suc maxNestingDepth) (subslice ber 0 off) obj"
    by (simp add: reader_exact_aux)
  with assms(2) der have ok: "der_ok (Suc maxNestingDepth) obj"
    by (auto intro: read_der_ok(1))
  from ber_tlv_length [OF der_ok_encodes [OF ok]] der have "der \<noteq> []" by auto
  moreover from reader_complete(1) [OF der_ok_encodes [OF ok], of 0 "[]" "[]"] der
  have "readObject der 0 0 = Inr (obj, length der)" by simp
  ultimately show ?thesis by (simp add: ber2der_def der)
qed

theorem ber2der_idempotent_witness:
  "ber2der [0x30, 0x80, 0x04, 0x01, 0x2A, 0, 0] = Inr [0x30, 3, 4, 1, 0x2A] \<and>
   ber2der [0x30, 3, 4, 1, 0x2A] = Inr [0x30, 3, 4, 1, 0x2A]"
proof -
  have ber: "ber2der [0x30, 0x80, 0x04, 0x01, 0x2A, 0, 0] = Inr [0x30, 3, 4, 1, 0x2A]" by code_simp
  with ber2der_idempotent [OF ber] show ?thesis by simp
qed

text \<open>
  C5: Bytes that follow the first object are dropped without an error: appending anything to
  an input that is accepted does not change the result.
\<close>

theorem ber2der_ignores_trailing:
  assumes "ber2der ber = Inr der"
  shows "ber2der (ber @ trailing) = Inr der"
proof -
  from assms obtain obj off where "ber \<noteq> []" "readObject ber 0 0 = Inr (obj, off)" "der = encode obj"
    by (auto simp: ber2der_def split: if_splits)
  with reader_append [of ber 0 0 obj off trailing] show ?thesis by (simp add: ber2der_def)
qed

theorem ber2der_ignores_trailing_witness:
  "ber2der ([0x04, 0x01, 0x2A] @ [0xDE, 0xAD]) = Inr [0x04, 0x01, 0x2A]"
proof -
  have ber: "ber2der [0x04, 0x01, 0x2A] = Inr [0x04, 0x01, 0x2A]" by code_simp
  show ?thesis by (rule ber2der_ignores_trailing [OF ber])
qed

text \<open>
  C4: Writing an object and reading it back gives the object and consumes exactly what was
  written, whatever follows, for every object within the depth and size limits.
\<close>

theorem encode_read_roundtrip:
  assumes "der_ok (Suc maxNestingDepth) obj"
  shows "readObject (encode obj @ rest) 0 0 = Inr (obj, length (encode obj))"
  using reader_complete(1) [OF der_ok_encodes [OF assms], of 0 "[]" rest] by simp

theorem encode_read_roundtrip_witness:
  "readObject (encode (Asn1Structured [0x30] [Asn1Primitive [4] 1 [0x2A]]) @ [7]) 0 0 =
     Inr (Asn1Structured [0x30] [Asn1Primitive [4] 1 [0x2A]],
       length (encode (Asn1Structured [0x30] [Asn1Primitive [4] 1 [0x2A]])))"
proof -
  have "der_ok (Suc (Suc n)) (Asn1Structured [0x30] [Asn1Primitive [4] 1 [0x2A]])" for n
    by (simp add: encode_simps der_length_eq)
  then have "der_ok (Suc (Suc 499)) (Asn1Structured [0x30] [Asn1Primitive [4] 1 [0x2A]])" .
  also have "Suc 499 = maxNestingDepth" by (simp add: maxNestingDepth_def)
  finally show ?thesis by (rule encode_read_roundtrip)
qed

text \<open>
  C6: A length written by \<open>encodeLength\<close> is read back as it was, in the definite form, and no
  length octets the reader accepts for it are shorter.
\<close>

theorem encodeLength_canonical:
  assumes "n < 2 ^ 31" and "n \<le> length rest"
  shows "readLength (encodeLength out n @ rest) (length out)
      = Inr (int n, False, length (encodeLength out n)) \<and>
    (\<forall>ls. ber_length ls n \<longrightarrow> length (encodeLength [] n) \<le> length ls)"
  using readLength_complete [OF der_length_is_length [OF assms(1)] assms(2), of out]
  by (auto simp: encodeLength_append der_length_shortest)

theorem encodeLength_canonical_witness:
  "readLength (encodeLength [0x04] 200 @ replicate 200 0) (length [0x04 :: byte])
      = Inr (200, False, length (encodeLength [0x04] 200)) \<and>
   length (encodeLength [] 200) \<le> length [0x81 :: byte, 200]"
proof -
  have "ber_length [0x81, 200] 200" by (simp add: be_value_Cons superfluous_def)
  then have "length (encodeLength [] 200) \<le> length [0x81 :: byte, 200]"
    if "\<forall>ls. ber_length ls 200 \<longrightarrow> length (encodeLength [] 200) \<le> length ls" using that by blast
  with encodeLength_canonical [of 200 "replicate 200 0" "[0x04]"] show ?thesis by auto
qed

text \<open>
  C7: Every length the reader accepts fits in a signed 32-bit integer and in the buffer, so
  no offset computed from it overflows even where \<open>int\<close> has 32 bits.
\<close>

theorem readLength_bounded:
  assumes "readLength ber offset = Inr (len, indefinite, off)"
  shows "0 \<le> len \<and> len < 2 ^ 31 \<and> off + nat len \<le> length ber"
proof (cases indefinite)
  case False
  from readLength_sound [OF assms] False have "ber_length (subslice ber offset off) (nat len)" by simp
  then have "nat len < 2 ^ 31"
    by (cases "subslice ber offset off") (auto split: if_splits intro: order.strict_trans [OF unat_byte_less])
  with readLength_bounds [OF assms] show ?thesis by auto
qed (use readLength_bounds [OF assms] in auto)

theorem readLength_bounded_witness:
  "readLength [0x04, 0x81, 0x02, 0, 0] 1 = Inr (2, False, 3) \<and> 3 + nat 2 \<le> length [0x04, 0x81, 0x02, 0, 0 :: byte]"
proof -
  have len: "readLength [0x04, 0x81, 0x02, 0, 0] 1 = Inr (2, False, 3)" by code_simp
  with readLength_bounded [OF len] show ?thesis by simp
qed

text \<open>
  C8: An object that is read at depth \<open>d\<close> nests at most \<open>maxNestingDepth + 1 - d\<close> deep: the
  recursion is bounded by the constant, not by the input.
\<close>

theorem readObject_height:
  assumes "readObject ber offset depth = Inr (obj, off)"
  shows "height obj + depth \<le> Suc maxNestingDepth"
proof -
  from assms have tlv: "ber_tlv (Suc maxNestingDepth - depth) (subslice ber offset off) obj"
    by (simp add: reader_exact_aux)
  then have "depth \<le> maxNestingDepth" by (auto elim: ber_tlv.cases)
  with ber_tlv_height(1) [OF tlv] show ?thesis by simp
qed

theorem readObject_height_witness:
  "height (Asn1Structured [0x30] [Asn1Primitive [4] 1 [0x2A]]) + 0 \<le> Suc maxNestingDepth"
proof -
  have "readObject [0x30, 3, 4, 1, 0x2A] 0 0 = Inr (Asn1Structured [0x30] [Asn1Primitive [4] 1 [0x2A]], 5)"
    by code_simp
  then show ?thesis by (rule readObject_height)
qed

end
