(* ===== verification/Crypto.thy ===== *)
theory Crypto
  imports Prelude
begin

text \<open>
  The cryptographic primitives the package calls and does not define. They are parameters:
  a record of functions that every definition using them takes as an argument. What the
  package relies on is stated as predicates on the record, the documented behaviour of
  \<open>crypto/cipher\<close>: a block cipher is a permutation of blocks.
\<close>

section \<open>Constant-time conditions\<close>

text \<open>\<open>crypto/subtle\<close>: conditions as the integers 0 and 1.\<close>

definition ConstantTimeLessOrEq :: "int \<Rightarrow> int \<Rightarrow> int" where
  "ConstantTimeLessOrEq x y = (if x \<le> y then 1 else 0)"

definition ConstantTimeByteEq :: "byte \<Rightarrow> byte \<Rightarrow> int" where
  "ConstantTimeByteEq x y = (if x = y then 1 else 0)"

definition ConstantTimeSelect :: "int \<Rightarrow> int \<Rightarrow> int \<Rightarrow> int" where
  "ConstantTimeSelect v x y = (if v = 1 then x else y)"

definition ConstantTimeCompare :: "bytes \<Rightarrow> bytes \<Rightarrow> int" where
  "ConstantTimeCompare x y = (if x = y then 1 else 0)"

section \<open>Block ciphers\<close>

text \<open>\<open>cipher.Block\<close>.\<close>

record block_cipher =
  Encrypt :: "bytes \<Rightarrow> bytes"
  Decrypt :: "bytes \<Rightarrow> bytes"
  BlockSize :: nat

definition cipher_ok :: "block_cipher \<Rightarrow> bool" where
  "cipher_ok block \<longleftrightarrow> 0 < BlockSize block \<and>
     (\<forall>b. length b = BlockSize block \<longrightarrow>
        length (Encrypt block b) = BlockSize block \<and> length (Decrypt block b) = BlockSize block \<and>
        Decrypt block (Encrypt block b) = b \<and> Encrypt block (Decrypt block b) = b)"

text \<open>
  The ciphers, each a permutation of blocks and its inverse for every key, and GCM over a
  block cipher (\<open>Seal\<close> and \<open>Open\<close> with a nonce and no additional data).
\<close>

record crypto =
  aes_encrypt :: "bytes \<Rightarrow> bytes \<Rightarrow> bytes"
  aes_decrypt :: "bytes \<Rightarrow> bytes \<Rightarrow> bytes"
  des_encrypt :: "bytes \<Rightarrow> bytes \<Rightarrow> bytes"
  des_decrypt :: "bytes \<Rightarrow> bytes \<Rightarrow> bytes"
  tdes_encrypt :: "bytes \<Rightarrow> bytes \<Rightarrow> bytes"
  tdes_decrypt :: "bytes \<Rightarrow> bytes \<Rightarrow> bytes"
  gcm_seal :: "block_cipher \<Rightarrow> bytes \<Rightarrow> bytes \<Rightarrow> bytes"
  gcm_open :: "block_cipher \<Rightarrow> bytes \<Rightarrow> bytes \<Rightarrow> bytes result"

text \<open>\<open>aes.NewCipher\<close>, \<open>des.NewCipher\<close>, \<open>des.NewTripleDESCipher\<close>: the key length is checked.\<close>

definition aes_NewCipher :: "crypto \<Rightarrow> bytes \<Rightarrow> block_cipher result" where
  "aes_NewCipher C key =
     (if length key \<in> {16, 24, 32}
      then Inr \<lparr>Encrypt = aes_encrypt C key, Decrypt = aes_decrypt C key, BlockSize = 16\<rparr>
      else Inl (KeySizeError (length key)))"

definition des_NewCipher :: "crypto \<Rightarrow> bytes \<Rightarrow> block_cipher result" where
  "des_NewCipher C key =
     (if length key = 8
      then Inr \<lparr>Encrypt = des_encrypt C key, Decrypt = des_decrypt C key, BlockSize = 8\<rparr>
      else Inl (KeySizeError (length key)))"

definition des_NewTripleDESCipher :: "crypto \<Rightarrow> bytes \<Rightarrow> block_cipher result" where
  "des_NewTripleDESCipher C key =
     (if length key = 24
      then Inr \<lparr>Encrypt = tdes_encrypt C key, Decrypt = tdes_decrypt C key, BlockSize = 8\<rparr>
      else Inl (KeySizeError (length key)))"

text \<open>The documented behaviour of the three ciphers.\<close>

definition crypto_ok :: "crypto \<Rightarrow> bool" where
  "crypto_ok C \<longleftrightarrow>
     (\<forall>key block. aes_NewCipher C key = Inr block \<or> des_NewCipher C key = Inr block \<or>
        des_NewTripleDESCipher C key = Inr block \<longrightarrow> cipher_ok block) \<and>
     (\<forall>block nonce p. BlockSize block = 16 \<longrightarrow> length nonce = 12 \<longrightarrow>
        gcm_open C block nonce (gcm_seal C block nonce p) = Inr p)"

lemma crypto_okD:
  assumes "crypto_ok C"
  shows "aes_NewCipher C key = Inr block \<Longrightarrow> cipher_ok block"
    and "des_NewCipher C key = Inr block \<Longrightarrow> cipher_ok block"
    and "des_NewTripleDESCipher C key = Inr block \<Longrightarrow> cipher_ok block"
    and "BlockSize block = 16 \<Longrightarrow> length nonce = 12 \<Longrightarrow>
      gcm_open C block nonce (gcm_seal C block nonce p) = Inr p"
  using assms by (auto simp: crypto_ok_def)

section \<open>Randomness\<close>

text \<open>
  The random source as the bytes it will still deliver, passed through every operation that
  reads it (\<open>rand.Read\<close>).
\<close>

type_synonym entropy = bytes

definition rand_Read :: "nat \<Rightarrow> entropy \<Rightarrow> (bytes \<times> entropy) result" where
  "rand_Read n ent = (if n \<le> length ent then Inr (take n ent, drop n ent) else Inl EntropyExhausted)"

lemma rand_Read_Inr: "rand_Read n ent = Inr (bs, ent') \<Longrightarrow> length bs = n"
  by (auto simp: rand_Read_def split: if_splits)

section \<open>A concrete instance\<close>

text \<open>
  A concrete instance, used where a theorem about all ciphers is applied to one: every
  cipher reverses the block, and sealing appends a constant tag.
\<close>

definition rev_crypto :: crypto where
  "rev_crypto = \<lparr>aes_encrypt = \<lambda>_. rev, aes_decrypt = \<lambda>_. rev, des_encrypt = \<lambda>_. rev,
     des_decrypt = \<lambda>_. rev, tdes_encrypt = \<lambda>_. rev, tdes_decrypt = \<lambda>_. rev,
     gcm_seal = \<lambda>_ _ p. p @ replicate 16 0,
     gcm_open = \<lambda>_ _ c. if length c < 16 then Inl (ExternalError 1) else Inr (take (length c - 16) c)\<rparr>"

lemma rev_crypto_ok: "crypto_ok rev_crypto"
  by (auto simp: crypto_ok_def cipher_ok_def rev_crypto_def aes_NewCipher_def des_NewCipher_def
      des_NewTripleDESCipher_def split: if_splits)

end
