(* ===== verification/KeyWrap.thy ===== *)
theory KeyWrap
  imports Crypto
begin

unbundle bit_operations_syntax

text \<open>
  AES key wrap as \<open>kem.go\<close> writes it (\<open>aesKeyWrap\<close>, \<open>aesKeyUnwrap\<close>): six passes over the
  64-bit registers of one array that is updated in place.
\<close>

section \<open>The operations\<close>

definition aesKeyWrapInitialValue :: bytes where
  "aesKeyWrapInitialValue = replicate 8 0xa6"

text \<open>\<open>binary.BigEndian.Uint64\<close> and \<open>PutUint64\<close> on eight bytes.\<close>

definition Uint64 :: "bytes \<Rightarrow> 64 word" where
  "Uint64 bs = word_of_nat (be_value bs)"

definition PutUint64 :: "64 word \<Rightarrow> bytes" where
  "PutUint64 w = be_bytes 8 (unat w)"

text \<open>\<open>copy(xs[off:off+len(ys)], ys)\<close>\<close>

definition put :: "bytes \<Rightarrow> nat \<Rightarrow> bytes \<Rightarrow> bytes" where
  "put xs off ys = take off xs @ ys @ drop (off + length ys) xs"

text \<open>The body of the two loops of \<open>aesKeyWrap\<close>, on the array \<open>output\<close>.\<close>

definition wrap_step :: "block_cipher \<Rightarrow> nat \<Rightarrow> nat \<Rightarrow> nat \<Rightarrow> bytes \<Rightarrow> bytes" where
  "wrap_step block n j i output =
     (let buffer = subslice output 0 8 @ subslice output (i * 8) ((i + 1) * 8);
          buffer = Encrypt block buffer;
          t = word_of_nat (n * j + i);
          output = put output 0 (PutUint64 (Uint64 (subslice buffer 0 8) XOR t))
      in put output (i * 8) (drop 8 buffer))"

definition wrap_passes :: "block_cipher \<Rightarrow> nat \<Rightarrow> bytes \<Rightarrow> bytes" where
  "wrap_passes block n = fold (\<lambda>j. fold (wrap_step block n j) [1..<Suc n]) [0..<6]"

definition aesKeyWrap :: "crypto \<Rightarrow> bytes \<Rightarrow> bytes \<Rightarrow> bytes result" where
  "aesKeyWrap C kek plaintext =
     (if length plaintext < 16 \<or> length plaintext mod 8 \<noteq> 0 then Inl KeyWrapInputLength
      else and_then (aes_NewCipher C kek) (\<lambda>block.
        let n = length plaintext div 8; output = aesKeyWrapInitialValue @ plaintext
        in Inr (wrap_passes block n output)))"

text \<open>The body of the two loops of \<open>aesKeyUnwrap\<close>, on the array \<open>working\<close>.\<close>

definition unwrap_step :: "block_cipher \<Rightarrow> nat \<Rightarrow> nat \<Rightarrow> nat \<Rightarrow> bytes \<Rightarrow> bytes" where
  "unwrap_step block n j i working =
     (let t = word_of_nat (n * j + i);
          buffer = PutUint64 (Uint64 (subslice working 0 8) XOR t) @ subslice working (i * 8) ((i + 1) * 8);
          buffer = Decrypt block buffer;
          working = put working 0 (subslice buffer 0 8)
      in put working (i * 8) (drop 8 buffer))"

definition unwrap_passes :: "block_cipher \<Rightarrow> nat \<Rightarrow> bytes \<Rightarrow> bytes" where
  "unwrap_passes block n = fold (\<lambda>j. fold (unwrap_step block n j) (rev [1..<Suc n])) (rev [0..<6])"

definition aesKeyUnwrap :: "crypto \<Rightarrow> bytes \<Rightarrow> bytes \<Rightarrow> bytes result" where
  "aesKeyUnwrap C kek ciphertext =
     (if length ciphertext < 24 \<or> length ciphertext mod 8 \<noteq> 0 then Inl KeyWrapMalformed
      else and_then (aes_NewCipher C kek) (\<lambda>block.
        let n = length ciphertext div 8 - 1;
            working = unwrap_passes block n ciphertext
        in if ConstantTimeCompare (subslice working 0 8) aesKeyWrapInitialValue \<noteq> 1 then Inl KeyUnwrapIntegrity
           else Inr (drop 8 working)))"

section \<open>One step and its inverse\<close>

text \<open>The same on words, for evaluation.\<close>

lemma word_of_nat_foldl:
  "word_of_nat (foldl (\<lambda>a b. a * 256 + unat b) a bs) = foldl (\<lambda>a b. a * 256 + ucast b) (word_of_nat a :: 64 word) bs"
  for bs :: bytes
  by (induction bs arbitrary: a) simp_all

lemma Uint64_code [code]: "Uint64 bs = foldl (\<lambda>a b. a * 256 + ucast b) 0 bs"
  using word_of_nat_foldl [of 0 bs] by (simp add: Uint64_def be_value_def)

lemma PutUint64_code [code]: "PutUint64 w = map (\<lambda>n. ucast (drop_bit (n * 8) w)) [7, 6, 5, 4, 3, 2, 1, 0]"
  by (simp add: PutUint64_def eval_nat_numeral flip: unat_drop_bit_eq)

lemma Uint64_PutUint64 [simp]: "Uint64 (PutUint64 w) = w"
proof -
  have "unat w < 2 ^ 64" using unsigned_less [of w, where 'a = nat] by simp
  then show ?thesis by (simp add: Uint64_def PutUint64_def be_value_be_bytes word_unat_eq_iff)
qed

lemma PutUint64_Uint64 [simp]:
  assumes "length bs = 8"
  shows "PutUint64 (Uint64 bs) = bs"
proof -
  have "unat (Uint64 bs) = be_value bs"
    using be_value_less [of bs] assms by (simp add: Uint64_def unat_of_nat)
  with be_bytes_be_value [of bs] assms show ?thesis by (simp add: PutUint64_def)
qed

lemma length_PutUint64 [simp]: "length (PutUint64 w) = 8"
  by (simp add: PutUint64_def)

text \<open>The array as its first register, the registers before \<open>i\<close>, register \<open>i\<close> and the rest.\<close>

lemma registers:
  assumes "length out = 8 * (n + 1)" "1 \<le> i" "i \<le> n"
  obtains A pre R post where "out = A @ pre @ R @ post" "length A = 8" "length R = 8"
    "8 + length pre = i * 8"
proof -
  let ?A = "take 8 out" and ?pre = "take (8 * (i - 1)) (drop 8 out)"
  let ?R = "take 8 (drop (i * 8) out)" and ?post = "drop (8 + i * 8) out"
  have i: "8 * (i - 1) + 8 = i * 8" using assms(2) by (simp add: algebra_simps)
  have "?pre @ drop (8 * (i - 1)) (drop 8 out) = drop 8 out" by (rule append_take_drop_id)
  moreover have "drop (8 * (i - 1)) (drop 8 out) = drop (i * 8) out" using i by simp
  moreover have "?R @ ?post = drop (i * 8) out"
    using append_take_drop_id [of 8 "drop (i * 8) out"] by simp
  ultimately have "out = ?A @ ?pre @ ?R @ ?post" by (metis append_take_drop_id)
  moreover have "length ?A = 8" "length ?R = 8" "8 + length ?pre = i * 8"
    using assms i by auto
  ultimately show thesis by (rule that)
qed

lemma put_head: "length ys = length A \<Longrightarrow> put (A @ rest) 0 ys = ys @ rest"
  by (simp add: put_def)

lemma put_middle:
  "length ys = length R \<Longrightarrow> off = length P \<Longrightarrow> put (P @ R @ post) off ys = P @ ys @ post"
  by (simp add: put_def)

lemma register_slice:
  assumes "length A = 8" "length R = 8" "8 + length pre = i * 8"
  shows "subslice (A @ pre @ R @ post) (i * 8) ((i + 1) * 8) = R"
proof -
  have "i * 8 = length (A @ pre)" "(i + 1) * 8 = length (A @ pre) + length R" using assms by simp_all
  then show ?thesis using subslice_middle [of "A @ pre" R post] by (simp only: append_assoc)
qed

lemma register_put:
  assumes "length A = 8" "length R = 8" "8 + length pre = i * 8" "length ys = 8" "length zs = 8"
  shows "put (put (A @ pre @ R @ post) 0 ys) (i * 8) zs = ys @ pre @ zs @ post"
  using assms put_head [of ys A "pre @ R @ post"] put_middle [of zs R "i * 8" "ys @ pre" post] by simp

lemma wrap_step_registers:
  assumes "cipher_ok block" "BlockSize block = 16" "length A = 8" "length R = 8" "8 + length pre = i * 8"
  defines "B \<equiv> Encrypt block (A @ R)"
  shows "wrap_step block n j i (A @ pre @ R @ post) =
    PutUint64 (Uint64 (take 8 B) XOR word_of_nat (n * j + i)) @ pre @ drop 8 B @ post" (is "_ = ?X @ _")
proof -
  have "length B = 16" using assms by (simp add: cipher_ok_def)
  then have "put (put (A @ pre @ R @ post) 0 ?X) (i * 8) (drop 8 B) = ?X @ pre @ drop 8 B @ post"
    using assms(3-5) by (intro register_put) simp_all
  moreover have "take 8 (A @ pre @ R @ post) = A" using assms(3) by simp
  ultimately show ?thesis
    unfolding wrap_step_def Let_def register_slice [OF assms(3-5)] subslice_0 B_def by simp
qed

lemma unwrap_step_registers:
  assumes "cipher_ok block" "BlockSize block = 16" "length A = 8" "length R = 8" "8 + length pre = i * 8"
    and B: "B = Decrypt block (PutUint64 (Uint64 A XOR word_of_nat (n * j + i)) @ R)"
  shows "unwrap_step block n j i (A @ pre @ R @ post) = take 8 B @ pre @ drop 8 B @ post"
proof -
  have "length B = 16" using assms by (simp add: cipher_ok_def)
  then have "put (put (A @ pre @ R @ post) 0 (take 8 B)) (i * 8) (drop 8 B) = take 8 B @ pre @ drop 8 B @ post"
    using assms(3-5) by (intro register_put) simp_all
  moreover have "take 8 (A @ pre @ R @ post) = A" using assms(3) by simp
  ultimately show ?thesis
    unfolding unwrap_step_def Let_def register_slice [OF assms(3-5)] subslice_0 B by simp
qed

lemma xor_cancel: "(a XOR t) XOR t = (a :: 64 word)"
  by (simp add: xor.assoc)

lemma unwrap_wrap_step:
  assumes "cipher_ok block" "BlockSize block = 16" "length out = 8 * (n + 1)" "1 \<le> i" "i \<le> n"
  shows "length (wrap_step block n j i out) = 8 * (n + 1) \<and>
    unwrap_step block n j i (wrap_step block n j i out) = out"
proof -
  from assms(3-5) obtain A pre R post where out: "out = A @ pre @ R @ post"
    and len: "length A = 8" "length R = 8" "8 + length pre = i * 8" by (rule registers)
  let ?B = "Encrypt block (A @ R)" and ?t = "word_of_nat (n * j + i) :: 64 word"
  let ?A = "PutUint64 (Uint64 (take 8 ?B) XOR ?t)"
  have B: "length ?B = 16" "Decrypt block ?B = A @ R"
    using assms(1,2) len by (simp_all add: cipher_ok_def)
  have w: "wrap_step block n j i out = ?A @ pre @ drop 8 ?B @ post"
    unfolding out by (rule wrap_step_registers [OF assms(1,2) len])
  have "Decrypt block (PutUint64 (Uint64 ?A XOR ?t) @ drop 8 ?B) = A @ R"
    using B by (simp add: xor_cancel)
  then have "unwrap_step block n j i (?A @ pre @ drop 8 ?B @ post) = out"
    using B len unwrap_step_registers [OF assms(1,2), of ?A "drop 8 ?B" pre i _ n j post]
    by (simp add: out)
  moreover have "length (?A @ pre @ drop 8 ?B @ post) = length out" using B len by (simp add: out)
  ultimately show ?thesis using assms(3) by (simp only: w)
qed

lemma wrap_unwrap_step:
  assumes "cipher_ok block" "BlockSize block = 16" "length out = 8 * (n + 1)" "1 \<le> i" "i \<le> n"
  shows "length (unwrap_step block n j i out) = 8 * (n + 1) \<and>
    wrap_step block n j i (unwrap_step block n j i out) = out"
proof -
  from assms(3-5) obtain A pre R post where out: "out = A @ pre @ R @ post"
    and len: "length A = 8" "length R = 8" "8 + length pre = i * 8" by (rule registers)
  let ?t = "word_of_nat (n * j + i) :: 64 word"
  let ?I = "PutUint64 (Uint64 A XOR ?t) @ R"
  let ?B = "Decrypt block ?I"
  have "length ?I = 16" using len by simp
  then have B: "length ?B = 16" "Encrypt block ?B = ?I"
    using assms(1,2) by (simp_all add: cipher_ok_def)
  have w: "unwrap_step block n j i out = take 8 ?B @ pre @ drop 8 ?B @ post"
    unfolding out by (rule unwrap_step_registers [OF assms(1,2) len refl])
  have "wrap_step block n j i (take 8 ?B @ pre @ drop 8 ?B @ post) = out"
    using B len wrap_step_registers [OF assms(1,2), of "take 8 ?B" "drop 8 ?B" pre i n j post]
    by (simp add: out xor_cancel)
  moreover have "length (take 8 ?B @ pre @ drop 8 ?B @ post) = length out" using B len by (simp add: out)
  ultimately show ?thesis using assms(3) by (simp only: w)
qed

section \<open>The six passes\<close>

lemma fold_inverse:
  assumes "\<And>x s. x \<in> set xs \<Longrightarrow> P s \<Longrightarrow> P (f x s) \<and> g x (f x s) = s" and "P s"
  shows "P (fold f xs s) \<and> fold g (rev xs) (fold f xs s) = s"
  using assms by (induction xs arbitrary: s) simp_all

lemma unwrap_wrap_passes:
  assumes "cipher_ok block" "BlockSize block = 16" "length out = 8 * (n + 1)"
  shows "length (wrap_passes block n out) = 8 * (n + 1)"
    and "unwrap_passes block n (wrap_passes block n out) = out"
proof -
  let ?P = "\<lambda>s :: bytes. length s = 8 * (n + 1)"
  have pass: "?P (fold (wrap_step block n j) [1..<Suc n] s) \<and>
      fold (unwrap_step block n j) (rev [1..<Suc n]) (fold (wrap_step block n j) [1..<Suc n] s) = s"
    if "?P s" for j s
    using that by (intro fold_inverse unwrap_wrap_step assms(1,2)) auto
  have "?P (wrap_passes block n out) \<and> unwrap_passes block n (wrap_passes block n out) = out"
    unfolding wrap_passes_def unwrap_passes_def
    by (rule fold_inverse [where P = ?P, OF pass assms(3)])
  then show "?P (wrap_passes block n out)" "unwrap_passes block n (wrap_passes block n out) = out" by simp_all
qed

lemma wrap_unwrap_passes:
  assumes "cipher_ok block" "BlockSize block = 16" "length out = 8 * (n + 1)"
  shows "length (unwrap_passes block n out) = 8 * (n + 1)"
    and "wrap_passes block n (unwrap_passes block n out) = out"
proof -
  let ?P = "\<lambda>s :: bytes. length s = 8 * (n + 1)"
  let ?is = "rev [1..<Suc n]" and ?js = "rev [0..<6::nat]"
  have pass: "?P (fold (unwrap_step block n j) ?is s) \<and>
      fold (wrap_step block n j) (rev ?is) (fold (unwrap_step block n j) ?is s) = s"
    if "?P s" for j s
    using that by (intro fold_inverse wrap_unwrap_step assms(1,2)) auto
  have "?P (unwrap_passes block n out) \<and>
      fold (\<lambda>j. fold (wrap_step block n j) (rev ?is)) (rev ?js) (unwrap_passes block n out) = out"
    unfolding unwrap_passes_def by (rule fold_inverse [where P = ?P, OF pass assms(3)])
  then show "?P (unwrap_passes block n out)" "wrap_passes block n (unwrap_passes block n out) = out"
    by (simp_all only: wrap_passes_def rev_rev_ident)
qed

section \<open>The contract of a key wrapping scheme\<close>

text \<open>
  What the recipient handling relies on: for usable keys wrapping cannot fail, unwrapping gives
  the wrapped key back, and only a wrapped key unwraps.
\<close>

locale key_wrap_scheme =
  fixes wrap unwrap :: "'k \<Rightarrow> bytes \<Rightarrow> bytes result" and usable :: "'k \<Rightarrow> bool" and wrappable :: "bytes \<Rightarrow> bool"
  assumes wrap_total: "usable k \<Longrightarrow> wrappable p \<Longrightarrow> \<exists>c. wrap k p = Inr c"
    and wrap_domain: "wrap k p = Inr c \<Longrightarrow> wrappable p"
    and unwrap_wrap: "usable k \<Longrightarrow> wrap k p = Inr c \<Longrightarrow> unwrap k c = Inr p"
    and wrap_unwrap: "usable k \<Longrightarrow> unwrap k c = Inr p \<Longrightarrow> wrap k p = Inr c"
begin

lemma unwrap_iff: "usable k \<Longrightarrow> unwrap k c = Inr p \<longleftrightarrow> wrap k p = Inr c"
  using unwrap_wrap wrap_unwrap by blast

lemma wrap_inj: "usable k \<Longrightarrow> wrap k p = Inr c \<Longrightarrow> wrap k q = Inr c \<Longrightarrow> p = q"
  using unwrap_wrap [of k p c] unwrap_wrap [of k q c] by simp

lemma unwrap_inj: "usable k \<Longrightarrow> unwrap k c = Inr p \<Longrightarrow> unwrap k d = Inr p \<Longrightarrow> c = d"
  using wrap_unwrap [of k c p] wrap_unwrap [of k d p] by simp

lemma unwrap_domain: "usable k \<Longrightarrow> unwrap k c = Inr p \<Longrightarrow> wrappable p"
  using wrap_unwrap wrap_domain by blast

end

definition aes_key_ok :: "crypto \<times> bytes \<Rightarrow> bool" where
  "aes_key_ok k \<longleftrightarrow> crypto_ok (fst k) \<and> length (snd k) \<in> {16, 24, 32}"

definition wrappable_key :: "bytes \<Rightarrow> bool" where
  "wrappable_key p \<longleftrightarrow> 16 \<le> length p \<and> 8 dvd length p"

lemma aes_blockE:
  assumes "aes_key_ok (C, kek)"
  obtains block where "aes_NewCipher C kek = Inr block" "cipher_ok block" "BlockSize block = 16"
  using assms crypto_okD(1) [of C kek] by (fastforce simp: aes_key_ok_def aes_NewCipher_def)

lemma aesKeyWrap_eq:
  assumes "aes_NewCipher C kek = Inr block" "wrappable_key p"
  shows "aesKeyWrap C kek p = Inr (wrap_passes block (length p div 8) (aesKeyWrapInitialValue @ p))"
  using assms by (auto simp: aesKeyWrap_def wrappable_key_def Let_def dvd_eq_mod_eq_0)

lemma length_initial [simp]: "length aesKeyWrapInitialValue = 8"
  by (simp add: aesKeyWrapInitialValue_def)

lemma aesKeyUnwrap_eq:
  assumes "aes_NewCipher C kek = Inr block" "24 \<le> length c" "8 dvd length c"
  defines "w \<equiv> unwrap_passes block (length c div 8 - 1) c"
  shows "aesKeyUnwrap C kek c = (if take 8 w = aesKeyWrapInitialValue then Inr (drop 8 w) else Inl KeyUnwrapIntegrity)"
  using assms by (auto simp: aesKeyUnwrap_def Let_def dvd_eq_mod_eq_0 ConstantTimeCompare_def)

interpretation aes_kw: key_wrap_scheme "\<lambda>k. aesKeyWrap (fst k) (snd k)" "\<lambda>k. aesKeyUnwrap (fst k) (snd k)"
  aes_key_ok wrappable_key
proof unfold_locales
  fix k p
  assume "aes_key_ok k" "wrappable_key p"
  then show "\<exists>c. aesKeyWrap (fst k) (snd k) p = Inr c"
    by (cases k) (auto elim!: aes_blockE simp: aesKeyWrap_eq)
next
  fix k p c
  assume "aesKeyWrap (fst k) (snd k) p = Inr c"
  then show "wrappable_key p"
    by (auto simp: aesKeyWrap_def wrappable_key_def dvd_eq_mod_eq_0 split: if_splits)
next
  fix k p c
  assume k: "aes_key_ok k" and wrap: "aesKeyWrap (fst k) (snd k) p = Inr c"
  obtain C kek where [simp]: "k = (C, kek)" by (cases k)
  from wrap have p: "wrappable_key p"
    by (auto simp: aesKeyWrap_def wrappable_key_def dvd_eq_mod_eq_0 split: if_splits)
  from k obtain block where block: "aes_NewCipher C kek = Inr block" "cipher_ok block" "BlockSize block = 16"
    by (auto elim: aes_blockE)
  let ?n = "length p div 8" and ?o = "aesKeyWrapInitialValue @ p"
  have o: "length ?o = 8 * (?n + 1)" using p by (simp add: wrappable_key_def)
  have c: "c = wrap_passes block ?n ?o" using wrap aesKeyWrap_eq [OF block(1) p] by simp
  have len: "length c = 8 * (?n + 1)" unfolding c by (rule unwrap_wrap_passes [OF block(2,3) o])
  moreover have "2 \<le> ?n" using p by (auto simp: wrappable_key_def)
  ultimately have "24 \<le> length c" "8 dvd length c" "length c div 8 - 1 = ?n" by simp_all
  moreover have "unwrap_passes block ?n c = ?o" unfolding c by (rule unwrap_wrap_passes [OF block(2,3) o])
  ultimately show "aesKeyUnwrap (fst k) (snd k) c = Inr p" using block(1) by (simp add: aesKeyUnwrap_eq)
next
  fix k p c
  assume k: "aes_key_ok k" and unwrap: "aesKeyUnwrap (fst k) (snd k) c = Inr p"
  obtain C kek where [simp]: "k = (C, kek)" by (cases k)
  from unwrap have c: "24 \<le> length c" "8 dvd length c"
    by (auto simp: aesKeyUnwrap_def dvd_eq_mod_eq_0 split: if_splits)
  from k obtain block where block: "aes_NewCipher C kek = Inr block" "cipher_ok block" "BlockSize block = 16"
    by (auto elim: aes_blockE)
  let ?n = "length c div 8 - 1"
  let ?w = "unwrap_passes block ?n c"
  have n: "length c = 8 * (?n + 1)" "2 \<le> ?n" using c by auto
  from unwrap aesKeyUnwrap_eq [OF block(1) c] have w: "take 8 ?w = aesKeyWrapInitialValue" "p = drop 8 ?w"
    by (auto split: if_splits)
  then have o: "aesKeyWrapInitialValue @ p = ?w" using append_take_drop_id [of 8 ?w] by simp
  have "length ?w = 8 * (?n + 1)" by (rule wrap_unwrap_passes [OF block(2,3) n(1)])
  then have "length p = 8 * ?n" using w(2) by simp
  then have "wrappable_key p" "length p div 8 = ?n" using n(2) by (simp_all add: wrappable_key_def)
  moreover have "wrap_passes block ?n ?w = c" by (rule wrap_unwrap_passes [OF block(2,3) n(1)])
  ultimately show "aesKeyWrap (fst k) (snd k) p = Inr c" using aesKeyWrap_eq [OF block(1)] o by simp
qed

lemma length_aesKeyWrap:
  assumes "aes_key_ok (C, kek)" "aesKeyWrap C kek key = Inr c"
  shows "length c = length key + 8"
proof -
  have w: "wrappable_key key" using aes_kw.wrap_domain [of "(C, kek)" key c] assms(2) by simp
  from assms(1) obtain block where block: "aes_NewCipher C kek = Inr block" "cipher_ok block" "BlockSize block = 16"
    by (rule aes_blockE)
  have "length (aesKeyWrapInitialValue @ key) = 8 * (length key div 8 + 1)" using w by (simp add: wrappable_key_def)
  from unwrap_wrap_passes(1) [OF block(2,3) this] assms(2) aesKeyWrap_eq [OF block(1) w] w
  show ?thesis by (simp add: wrappable_key_def)
qed

section \<open>Properties\<close>

text \<open>
  C9: Wrapping a content key of at least 16 bytes and a whole number of 8-byte words under an AES
  key returns eight more bytes than the key has, and unwrapping them under the same key returns the key.
\<close>

theorem aesKeyWrap_roundtrip:
  assumes "crypto_ok C" "length kek \<in> {16, 24, 32}" "16 \<le> length key" "8 dvd length key"
  shows "\<exists>c. aesKeyWrap C kek key = Inr c \<and> aesKeyUnwrap C kek c = Inr key \<and> length c = length key + 8"
proof -
  have k: "aes_key_ok (C, kek)" "wrappable_key key" using assms by (simp_all add: aes_key_ok_def wrappable_key_def)
  from aes_kw.wrap_total [OF this] obtain c where c: "aesKeyWrap C kek key = Inr c" by auto
  with aes_kw.unwrap_wrap [OF k(1), of key c] length_aesKeyWrap [OF k(1) c] show ?thesis by simp
qed

theorem aesKeyWrap_roundtrip_witness:
  "\<exists>c. aesKeyWrap rev_crypto (replicate 32 7) (replicate 16 9) = Inr c \<and>
    aesKeyUnwrap rev_crypto (replicate 32 7) c = Inr (replicate 16 9) \<and>
    length c = length (replicate 16 (9 :: byte)) + 8"
  using rev_crypto_ok by (rule aesKeyWrap_roundtrip) simp_all

text \<open>
  C10: The integrity check is exact: unwrapping accepts a ciphertext only if it is the wrapping of the
  key it returns, so no two ciphertexts unwrap to the same key under one key-encryption key.
\<close>

theorem aesKeyUnwrap_only_wrapped:
  assumes "crypto_ok C" "length kek \<in> {16, 24, 32}"
  shows "aesKeyUnwrap C kek c = Inr key \<longleftrightarrow> aesKeyWrap C kek key = Inr c"
  using aes_kw.unwrap_iff [of "(C, kek)" c key] assms by (simp add: aes_key_ok_def)

theorem aesKeyUnwrap_only_wrapped_witness:
  "aesKeyUnwrap rev_crypto (replicate 32 7) (replicate 24 0) = Inr (replicate 16 9) \<longleftrightarrow>
   aesKeyWrap rev_crypto (replicate 32 7) (replicate 16 9) = Inr (replicate 24 0)"
  using rev_crypto_ok by (rule aesKeyUnwrap_only_wrapped) simp



end
