(* ===== verification/Asn1.thy ===== *)
theory Asn1
  imports Ber "HOL-Library.List_Lexorder"
begin

text \<open>
  What the package uses of the standard library's \<open>encoding/asn1\<close>: headers, base-128 numbers,
  INTEGER, OBJECT IDENTIFIER, OCTET STRING, \<open>RawValue\<close>, optional and explicitly tagged fields,
  SEQUENCE and SET OF. Decoders return the bytes that follow; encoders return bytes. The
  writer's length octets are those of \<open>encodeLength\<close> in \<open>ber.go\<close>, which is the same code.
\<close>

section \<open>Base-128 numbers\<close>

fun base128_loop :: "nat \<Rightarrow> nat \<Rightarrow> bytes \<Rightarrow> (nat \<times> bytes) result" where
  "base128_loop shifted acc [] = Inl (Asn1Error Base128Truncated)"
| "base128_loop shifted acc (b # bs) =
     (if shifted = 5 then Inl (Asn1Error Base128TooLarge)
      else if shifted = 0 \<and> b = 0x80 then Inl (Asn1Error Base128NotMinimal)
      else let acc = acc * 128 + unat b mod 128
           in if b < 0x80 then (if acc \<ge> 2 ^ 31 then Inl (Asn1Error Base128TooLarge) else Inr (acc, bs))
              else base128_loop (Suc shifted) acc bs)"

definition parseBase128Int :: "bytes \<Rightarrow> (nat \<times> bytes) result" where
  "parseBase128Int bs = base128_loop 0 0 bs"

text \<open>The number as \<open>l\<close> groups of seven bits, all but the last marked as continued.\<close>

fun base128_digits :: "nat \<Rightarrow> nat \<Rightarrow> bytes" where
  "base128_digits 0 n = []"
| "base128_digits (Suc i) n =
     word_of_nat (n div 128 ^ i mod 128 + (if i = 0 then 0 else 128)) # base128_digits i n"

fun base128_length :: "nat \<Rightarrow> nat" where
  "base128_length n = (if n < 128 then 1 else Suc (base128_length (n div 128)))"

declare base128_length.simps [simp del]

definition appendBase128Int :: "nat \<Rightarrow> bytes" where
  "appendBase128Int n = base128_digits (base128_length n) n"

lemma base128_length_less: "n < 128 ^ base128_length n"
proof (induction n rule: base128_length.induct)
  case (1 n)
  show ?case
  proof (cases "n < 128")
    case True
    then show ?thesis by (simp add: base128_length.simps [of n])
  next
    case False
    with 1 have "n div 128 < 128 ^ base128_length (n div 128)" by simp
    with False show ?thesis
      by (simp add: base128_length.simps [of n] div_less_iff_less_mult mult.commute)
  qed
qed

lemma base128_length_ge: "128 \<le> n \<Longrightarrow> 128 ^ (base128_length n - 1) \<le> n"
proof (induction n rule: base128_length.induct)
  case (1 n)
  show ?case
  proof (cases "128 \<le> n div 128")
    case True
    with 1 have "128 ^ (base128_length (n div 128) - 1) \<le> n div 128" by simp
    then have "128 ^ (base128_length (n div 128) - 1) * 128 \<le> n" by (simp add: less_eq_div_iff_mult_less_eq)
    moreover have "1 \<le> base128_length (n div 128)" by (simp add: base128_length.simps [of "n div 128"])
    ultimately show ?thesis using "1.prems"
      by (cases "base128_length (n div 128)") (simp_all add: base128_length.simps [of n])
  next
    case False
    with "1.prems" show ?thesis by (simp add: base128_length.simps [of n] base128_length.simps [of "n div 128"])
  qed
qed

lemma base128_loop_digits:
  assumes "0 < i" "shifted + i \<le> 5" "n < 2 ^ 31"
    and "shifted = 0 \<longrightarrow> 1 < i \<longrightarrow> n div 128 ^ (i - 1) mod 128 \<noteq> 0"
  shows "base128_loop shifted (n div 128 ^ i) (base128_digits i n @ rest) = Inr (n, rest)"
  using assms
proof (induction i arbitrary: shifted)
  case (Suc i)
  let ?d = "n div 128 ^ i mod 128"
  let ?b = "word_of_nat (?d + (if i = 0 then 0 else 128)) :: byte"
  have "?d < 128" by simp
  then have b: "unat ?b = ?d + (if i = 0 then 0 else 128)" by (intro unat_byte_small) auto
  then have mod: "unat ?b mod 128 = ?d" by simp
  have lt: "?b < 0x80 \<longleftrightarrow> i = 0" using b \<open>?d < 128\<close> by (auto simp: word_less_nat_alt)
  have "?b = 0x80 \<longleftrightarrow> i \<noteq> 0 \<and> ?d = 0" using b \<open>?d < 128\<close> by (auto simp: word_unat_eq_iff)
  with Suc.prems(4) have nz: "\<not> (shifted = 0 \<and> ?b = 0x80)" by auto
  have acc: "n div 128 ^ Suc i * 128 + ?d = n div 128 ^ i"
    using div_mult_mod_eq [of "n div 128 ^ i" 128] by (simp only: power_Suc2 div_mult2_eq)
  show ?case
  proof (cases "i = 0")
    case True
    with Suc.prems show ?thesis
      using b nz lt acc mod by (simp add: Let_def)
  next
    case False
    with Suc have "base128_loop (Suc shifted) (n div 128 ^ i) (base128_digits i n @ rest) = Inr (n, rest)" by simp
    with Suc.prems False show ?thesis
      using nz lt acc mod by (simp add: Let_def)
  qed
qed simp

lemma parse_append_base128:
  assumes "n < 2 ^ 31"
  shows "parseBase128Int (appendBase128Int n @ rest) = Inr (n, rest)"
proof -
  let ?l = "base128_length n"
  have l: "0 < ?l" by (simp add: base128_length.simps)
  have small: "?l \<le> 5"
  proof (rule ccontr)
    assume "\<not> ?l \<le> 5"
    then have "128 \<le> n" by (auto simp: base128_length.simps [of n] split: if_splits)
    from base128_length_ge [OF this] have "128 ^ (?l - 1) \<le> n" .
    moreover have "128 ^ 5 \<le> (128 :: nat) ^ (?l - 1)" using \<open>\<not> ?l \<le> 5\<close> by (intro power_increasing) simp_all
    ultimately show False using assms by simp
  qed
  have top: "n div 128 ^ (?l - 1) mod 128 \<noteq> 0" if "1 < ?l"
  proof -
    from that have "128 \<le> n" by (auto simp: base128_length.simps [of n] split: if_splits)
    from base128_length_ge [OF this] have "1 \<le> n div 128 ^ (?l - 1)" by (simp add: less_eq_div_iff_mult_less_eq)
    moreover have "n div 128 ^ (?l - 1) < 128"
      using base128_length_less [of n] l by (cases ?l) (simp_all add: div_less_iff_less_mult)
    ultimately show ?thesis by simp
  qed
  have "n div 128 ^ ?l = 0" using base128_length_less [of n] by simp
  then show ?thesis
    using base128_loop_digits [of ?l 0 n rest] l small assms top
    by (simp add: parseBase128Int_def appendBase128Int_def)
qed

lemma base128_loop_shorter: "base128_loop shifted acc bs = Inr (v, rest) \<Longrightarrow> length rest < length bs"
  by (induction shifted acc bs rule: base128_loop.induct) (fastforce simp: Let_def split: if_splits)+

lemma parseBase128Int_shorter: "parseBase128Int bs = Inr (v, rest) \<Longrightarrow> length rest < length bs"
  unfolding parseBase128Int_def by (rule base128_loop_shorter)

lemma base128_loop_less: "base128_loop shifted acc bs = Inr (v, rest) \<Longrightarrow> v < 2 ^ 31"
  by (induction shifted acc bs rule: base128_loop.induct) (auto simp: Let_def split: if_splits)

section \<open>Headers\<close>

record header =
  hClass :: nat
  hTag :: nat
  hLen :: nat
  hCompound :: bool

text \<open>The number of length octets that follow is given; every prefix must be non-zero.\<close>

fun parseLengthOctets :: "nat \<Rightarrow> nat \<Rightarrow> bytes \<Rightarrow> (nat \<times> bytes) result" where
  "parseLengthOctets 0 acc bs = Inr (acc, bs)"
| "parseLengthOctets (Suc n) acc [] = Inl (Asn1Error TruncatedHeader)"
| "parseLengthOctets (Suc n) acc (b # bs) =
     (if acc \<ge> 2 ^ 23 then Inl (Asn1Error LengthTooLarge)
      else let acc = acc * 256 + unat b
           in if acc = 0 then Inl (Asn1Error SuperfluousZeros) else parseLengthOctets n acc bs)"

definition parseLength :: "bytes \<Rightarrow> (nat \<times> bytes) result" where
  "parseLength bs = (case bs of [] \<Rightarrow> Inl (Asn1Error TruncatedHeader) | b # bs \<Rightarrow>
     if b < 0x80 then Inr (unat b, bs)
     else if b = 0x80 then Inl (Asn1Error IndefiniteLength)
     else and_then (parseLengthOctets (unat b - 128) 0 bs) (\<lambda>(len, rest).
       if len < 128 then Inl (Asn1Error NonMinimalLength) else Inr (len, rest)))"

definition parseTagAndLength :: "bytes \<Rightarrow> (header \<times> bytes) result" where
  "parseTagAndLength bs = (case bs of [] \<Rightarrow> Inl (Asn1Error SequenceTruncated) | b # bs \<Rightarrow>
     let cls = unat b div 64; compound = (unat b div 32 mod 2 = 1) in
     and_then (if unat b mod 32 = 31
               then and_then (parseBase128Int bs) (\<lambda>(tag, rest).
                 if tag < 31 then Inl (Asn1Error NonMinimalTag) else Inr (tag, rest))
               else Inr (unat b mod 32, bs)) (\<lambda>(tag, rest).
     and_then (parseLength rest) (\<lambda>(len, rest).
       Inr (\<lparr>hClass = cls, hTag = tag, hLen = len, hCompound = compound\<rparr>, rest))))"

definition tagOctets :: "nat \<Rightarrow> bool \<Rightarrow> nat \<Rightarrow> bytes" where
  "tagOctets cls compound tag =
     (if tag \<ge> 31 then word_of_nat (cls * 64 + (if compound then 32 else 0) + 31) # appendBase128Int tag
      else [word_of_nat (cls * 64 + (if compound then 32 else 0) + tag)])"

definition appendTagAndLength :: "header \<Rightarrow> bytes" where
  "appendTagAndLength h = tagOctets (hClass h) (hCompound h) (hTag h) @ der_length (hLen h)"

definition header_ok :: "header \<Rightarrow> bool" where
  "header_ok h \<longleftrightarrow> hClass h < 4 \<and> hTag h < 2 ^ 31 \<and> hLen h < 2 ^ 31"

lemma parseLengthOctets_be_bytes:
  assumes "acc * 256 ^ k + n mod 256 ^ k < 2 ^ 31"
    and "acc = 0 \<longrightarrow> k = 0 \<or> n div 256 ^ (k - 1) mod 256 \<noteq> 0"
  shows "parseLengthOctets k acc (be_bytes k n @ rest) = Inr (acc * 256 ^ k + n mod 256 ^ k, rest)"
  using assms
proof (induction k arbitrary: acc)
  case (Suc k)
  let ?d = "n div 256 ^ k mod 256" and ?b = "word_of_nat (drop_bit (k * 8) n) :: byte"
  have b: "unat ?b = ?d" by (simp add: drop_bit_eq_div power_mult mult.commute [of k])
  have split: "n mod 256 ^ Suc k = ?d * 256 ^ k + n mod 256 ^ k"
    using mod_mult2_eq [of n "256 ^ k" 256] by (simp add: mult.commute)
  then have total: "acc * 256 ^ Suc k + n mod 256 ^ Suc k = (acc * 256 + ?d) * 256 ^ k + n mod 256 ^ k"
    by (simp add: algebra_simps)
  have "acc * 256 < 2 ^ 31"
  proof -
    have "acc * 256 ^ 1 \<le> acc * 256 ^ Suc k" by (intro mult_le_mono2 power_increasing) simp_all
    from order.strict_trans1 [OF order.trans [OF this le_add1] Suc.prems(1)] show ?thesis by simp
  qed
  then have "\<not> acc \<ge> 2 ^ 23" by simp
  moreover have "acc * 256 + ?d \<noteq> 0" using Suc.prems(2) by auto
  moreover have "parseLengthOctets k (acc * 256 + ?d) (be_bytes k n @ rest)
      = Inr ((acc * 256 + ?d) * 256 ^ k + n mod 256 ^ k, rest)"
  proof (rule Suc.IH)
    show "(acc * 256 + ?d) * 256 ^ k + n mod 256 ^ k < 2 ^ 31" using Suc.prems(1) unfolding total .
    show "acc * 256 + ?d = 0 \<longrightarrow> k = 0 \<or> n div 256 ^ (k - 1) mod 256 \<noteq> 0"
      using \<open>acc * 256 + ?d \<noteq> 0\<close> by blast
  qed
  ultimately show ?case unfolding total using b by (simp add: Let_def)
qed simp

lemma parseLength_der_length:
  assumes "n < 2 ^ 31"
  shows "parseLength (der_length n @ rest) = Inr (n, rest)"
proof (cases "n < 128")
  case True
  then have "(word_of_nat n :: byte) < 0x80" "unat (word_of_nat n :: byte) = n"
    by (simp_all add: word_less_nat_alt)
  with True show ?thesis by (simp add: parseLength_def der_length_eq)
next
  case False
  define L where "L = lengthLength n"
  have L: "1 \<le> L" "L \<le> 4"
    using assms lengthLength_ge_1 lengthLength_le_iff [of 4 n] by (auto simp: L_def)
  have fits: "n < 256 ^ L" unfolding L_def by (rule lengthLength_fits)
  have "256 ^ (L - 1) \<le> n"
  proof (cases "L = 1")
    case False
    with L have "\<not> L \<le> L - 1" "1 \<le> L - 1" by simp_all
    with lengthLength_le_iff [of "L - 1" n] show ?thesis by (simp flip: L_def)
  qed (use \<open>\<not> n < 128\<close> in simp)
  then have "1 \<le> n div 256 ^ (L - 1)" by (simp add: less_eq_div_iff_mult_less_eq)
  moreover have "n div 256 ^ (L - 1) < 256" using fits L by (cases L) (simp_all add: div_less_iff_less_mult)
  ultimately have "n div 256 ^ (L - 1) mod 256 \<noteq> 0" by simp
  then have octets: "parseLengthOctets L 0 (be_bytes L n @ rest) = Inr (n, rest)"
    using fits assms parseLengthOctets_be_bytes [of 0 L n rest] by simp
  have first: "unat (0x80 OR word_of_nat L :: byte) = 128 + L"
  proof -
    from L have "L = 1 \<or> L = 2 \<or> L = 3 \<or> L = 4" by arith
    then show ?thesis by (elim disjE) simp_all
  qed
  with L have "\<not> (0x80 OR word_of_nat L :: byte) < 0x80" "(0x80 OR word_of_nat L :: byte) \<noteq> 0x80"
    by (auto simp: word_less_nat_alt word_unat_eq_iff)
  with False first octets show ?thesis by (simp add: parseLength_def der_length_eq flip: L_def)
qed

lemma header_octet:
  fixes c l :: nat
  assumes "l < 32"
  shows "(c * 64 + (if k then 32 else 0) + l) div 64 = c" "(c * 64 + (if k then 32 else 0) + l) mod 32 = l"
    "((c * 64 + (if k then 32 else 0) + l) div 32 mod 2 = 1) = k"
proof -
  let ?n = "c * 64 + (if k then 32 else 0) + l"
  have n: "?n = (c * 2 + of_bool k) * 32 + l" by simp
  have d: "?n div 32 = c * 2 + of_bool k" unfolding n using assms by (subst div_mult_self3) simp_all
  show "?n mod 32 = l" unfolding n using assms by (subst mod_mult_self3) simp
  show "(?n div 32 mod 2 = 1) = k" unfolding d by simp
  have "?n div 64 = ?n div 32 div 2" by (simp add: div_mult2_eq [of ?n 32 2, simplified])
  then show "?n div 64 = c" unfolding d by simp
qed

lemma parse_append_header:
  assumes "header_ok h"
  shows "parseTagAndLength (appendTagAndLength h @ rest) = Inr (h, rest)"
proof -
  let ?k = "if hCompound h then 32 else 0 :: nat" and ?low = "if hTag h \<ge> 31 then 31 else hTag h"
  let ?b = "word_of_nat (hClass h * 64 + ?k + ?low) :: byte"
  from assms have ok: "hClass h < 4" "hTag h < 2 ^ 31" "hLen h < 2 ^ 31" by (simp_all add: header_ok_def)
  have low: "?low < 32" by simp
  then have "hClass h * 64 + ?k + ?low < 256" using ok(1) by auto
  then have b: "unat ?b = hClass h * 64 + ?k + ?low" by (rule unat_byte_small)
  have parts: "unat ?b div 64 = hClass h" "unat ?b mod 32 = ?low" "(unat ?b div 32 mod 2 = 1) = hCompound h"
    unfolding b by (rule header_octet [OF low])+
  show ?thesis
  proof (cases "hTag h \<ge> 31")
    case True
    with parts parse_append_base128 [OF ok(2)] parseLength_der_length [OF ok(3)] show ?thesis
      by (simp add: parseTagAndLength_def appendTagAndLength_def tagOctets_def Let_def)
  next
    case False
    with parts parseLength_der_length [OF ok(3)] show ?thesis
      by (simp add: parseTagAndLength_def appendTagAndLength_def tagOctets_def Let_def)
  qed
qed

interpretation header: codec appendTagAndLength parseTagAndLength header_ok
  by unfold_locales (rule parse_append_header)

end
