(* ===== verification/Asn1Values.thy ===== *)
theory Asn1Values
  imports Asn1
begin

text \<open>
  The values of \<open>encoding/asn1\<close> the package uses and the field parser they share
  (\<open>parseField\<close>), with the law that each decoder takes back what its encoder wrote.
\<close>

section \<open>INTEGER\<close>

text \<open>The least two's complement form, most significant byte first.\<close>

function int_bytes :: "int \<Rightarrow> bytes" where
  "int_bytes i = (if -128 \<le> i \<and> i \<le> 127 then [word_of_int i]
     else int_bytes (i div 256) @ [word_of_int i])"
  by pat_completeness auto
termination by (relation "measure (\<lambda>i. nat \<bar>i\<bar>)") auto

declare int_bytes.simps [simp del]

definition int_value :: "bytes \<Rightarrow> int" where
  "int_value bs = (if hd bs < 0x80 then int (be_value bs) else int (be_value bs) - 256 ^ length bs)"

definition checkInteger :: "bytes \<Rightarrow> unit result" where
  "checkInteger bs =
     (if bs = [] then Inl (Asn1Error EmptyInteger)
      else if 1 < length bs \<and> (bs ! 0 = 0 \<and> bs ! 1 < 0x80 \<or> bs ! 0 = 0xff \<and> \<not> bs ! 1 < 0x80)
      then Inl (Asn1Error IntegerNotMinimal) else Inr ())"

definition parseBigInt :: "bytes \<Rightarrow> int result" where
  "parseBigInt bs = and_then (checkInteger bs) (\<lambda>_. Inr (int_value bs))"

definition parseInt64 :: "bytes \<Rightarrow> int result" where
  "parseInt64 bs = and_then (checkInteger bs) (\<lambda>_.
     if length bs > 8 then Inl (Asn1Error IntegerTooLarge) else Inr (int_value bs))"

lemma be_value_append: "be_value (xs @ [b]) = be_value xs * 256 + unat b"
  by (simp add: be_value_def)

lemma int_bytes_nonempty [simp]: "int_bytes i \<noteq> []"
  by (simp add: int_bytes.simps [of i])

lemma unat_word_of_int_byte: "int (unat (word_of_int i :: byte)) = i mod 256"
  by (simp add: unsigned_of_int take_bit_eq_mod nat_mod_as_int)

lemma int_value_append: "xs \<noteq> [] \<Longrightarrow> int_value (xs @ [b]) = int_value xs * 256 + int (unat b)"
  by (simp add: int_value_def be_value_append algebra_simps)

lemma small_mod_256:
  fixes i :: int
  assumes "-128 \<le> i" "i \<le> 127"
  shows "i mod 256 = (if 0 \<le> i then i else i + 256)"
proof (cases "0 \<le> i")
  case False
  with assms have "(i + 256) mod 256 = i + 256" by (intro mod_pos_pos_trivial) simp_all
  with False show ?thesis by simp
qed (use assms in simp)

lemma int_value_int_bytes [simp]: "int_value (int_bytes i) = i"
proof (induction i rule: int_bytes.induct)
  case (1 i)
  show ?case
  proof (cases "-128 \<le> i \<and> i \<le> 127")
    case True
    let ?b = "word_of_int i :: byte"
    have b: "int (unat ?b) = i mod 256" by (rule unat_word_of_int_byte)
    have "?b < 0x80 \<longleftrightarrow> int (unat ?b) < 128" by (simp add: word_less_nat_alt del: of_nat_unat)
    then have sign: "?b < 0x80 \<longleftrightarrow> i mod 256 < 128" by (simp only: b)
    have val: "int_bytes i = [?b]" "be_value [?b] = unat ?b"
      using True by (simp_all add: int_bytes.simps [of i] be_value_Cons)
    have "int_value [?b] = (if i mod 256 < 128 then i mod 256 else i mod 256 - 256)"
      unfolding int_value_def val(2) b using sign by simp
    also have "\<dots> = i" using True small_mod_256 [of i] by auto
    finally show ?thesis using val(1) by simp
  next
    case False
    then have "int_bytes i = int_bytes (i div 256) @ [word_of_int i]"
      by (subst int_bytes.simps) simp
    then show ?thesis
      using 1 [OF False] by (simp add: int_value_append unat_word_of_int_byte del: of_nat_unat)
  qed
qed

lemma byte_neg_iff: "(word_of_int i :: byte) < 0x80 \<longleftrightarrow> i mod 256 < 128"
proof -
  have "(word_of_int i :: byte) < 0x80 \<longleftrightarrow> int (unat (word_of_int i :: byte)) < 128"
    by (simp add: word_less_nat_alt del: of_nat_unat)
  then show ?thesis by (simp only: unat_word_of_int_byte)
qed

lemma byte_eq_iff: "(word_of_int i :: byte) = b \<longleftrightarrow> i mod 256 = int (unat b)"
proof -
  have "(word_of_int i :: byte) = b \<longleftrightarrow> int (unat (word_of_int i :: byte)) = int (unat b)"
    by (simp add: word_unat_eq_iff del: of_nat_unat)
  then show ?thesis by (simp only: unat_word_of_int_byte)
qed

lemma checkInteger_append:
  "2 \<le> length xs \<Longrightarrow> checkInteger (xs @ [b]) = checkInteger xs"
  by (cases xs) (auto simp: checkInteger_def nth_append)

lemma checkInteger_int_bytes [simp]: "checkInteger (int_bytes i) = Inr ()"
proof (induction i rule: int_bytes.induct)
  case (1 i)
  show ?case
  proof (cases "-128 \<le> i \<and> i \<le> 127")
    case True
    then show ?thesis by (simp add: int_bytes.simps [of i] checkInteger_def)
  next
    case False
    note IH = 1 [OF False]
    let ?j = "i div 256"
    have i: "int_bytes i = int_bytes ?j @ [word_of_int i]" using False by (subst int_bytes.simps) simp
    show ?thesis
    proof (cases "-128 \<le> ?j \<and> ?j \<le> 127")
      case True
      then have "int_bytes i = [word_of_int ?j, word_of_int i]" unfolding i by (subst int_bytes.simps) simp
      moreover define q m where "q = ?j" and "m = i mod 256"
      then have qm: "?j = q" "i mod 256 = m" "i = q * 256 + m" "0 \<le> m" "m < 256" by simp_all
      have "\<not> (q mod 256 = 0 \<and> m < 128)" "\<not> (q mod 256 = 255 \<and> \<not> m < 128)"
        using True \<open>\<not> (- 128 \<le> i \<and> i \<le> 127)\<close> small_mod_256 [of q] qm(3-5) unfolding qm(1) by (auto split: if_splits)
      ultimately show ?thesis using qm(1,2) by (simp add: checkInteger_def byte_neg_iff byte_eq_iff)
    next
      case False
      then have "2 \<le> length (int_bytes ?j)" by (subst int_bytes.simps) (cases "int_bytes (?j div 256)"; simp)
      with IH show ?thesis unfolding i by (simp add: checkInteger_append)
    qed
  qed
qed

lemma length_int_bytes: "-(2 ^ (8 * n + 7)) \<le> i \<Longrightarrow> i < 2 ^ (8 * n + 7) \<Longrightarrow> length (int_bytes i) \<le> Suc n"
proof (induction n arbitrary: i)
  case (Suc n)
  show ?case
  proof (cases "-128 \<le> i \<and> i \<le> 127")
    case False
    have "(2 :: int) ^ (8 * Suc n + 7) = 256 * 2 ^ (8 * n + 7)" by (simp add: power_add)
    with Suc.prems have "- (2 ^ (8 * n + 7)) \<le> i div 256" "i div 256 < 2 ^ (8 * n + 7)" by linarith+
    then have "length (int_bytes (i div 256)) \<le> Suc n" by (rule Suc.IH)
    with False show ?thesis by (subst int_bytes.simps) simp
  qed (subst int_bytes.simps, simp)
qed (subst int_bytes.simps, simp)

lemma parse_int_bytes [simp]:
  "parseBigInt (int_bytes i) = Inr i"
  "-(2 ^ 63) \<le> i \<Longrightarrow> i < 2 ^ 63 \<Longrightarrow> parseInt64 (int_bytes i) = Inr i"
  using length_int_bytes [of 7 i] by (simp_all add: parseBigInt_def parseInt64_def)

section \<open>OBJECT IDENTIFIER\<close>

type_synonym oid = "nat list"

function parseSubidentifiers :: "bytes \<Rightarrow> nat list result" where
  "parseSubidentifiers bs =
     (if bs = [] then Inr []
      else and_then (parseBase128Int bs) (\<lambda>(v, rest).
        and_then (parseSubidentifiers rest) (\<lambda>vs. Inr (v # vs))))"
  by pat_completeness auto
termination by (relation "measure length") (auto dest: parseBase128Int_shorter)

declare parseSubidentifiers.simps [simp del]

definition parseObjectIdentifier :: "bytes \<Rightarrow> oid result" where
  "parseObjectIdentifier bs =
     (if bs = [] then Inl (Asn1Error EmptyOID)
      else and_then (parseSubidentifiers bs) (\<lambda>vs.
        Inr (if hd vs < 80 then hd vs div 40 # hd vs mod 40 # tl vs else 2 # (hd vs - 80) # tl vs)))"

fun makeObjectIdentifier :: "oid \<Rightarrow> bytes result" where
  "makeObjectIdentifier (a # b # cs) =
     (if a > 2 \<or> a < 2 \<and> b \<ge> 40 then Inl (Asn1Error InvalidOID)
      else Inr (concat (map appendBase128Int ((a * 40 + b) # cs))))"
| "makeObjectIdentifier oid = Inl (Asn1Error InvalidOID)"

fun oid_ok :: "oid \<Rightarrow> bool" where
  "oid_ok (a # b # cs) \<longleftrightarrow> a \<le> 2 \<and> (a < 2 \<longrightarrow> b < 40) \<and> a * 40 + b < 2 ^ 31 \<and> (\<forall>c \<in> set cs. c < 2 ^ 31)"
| "oid_ok oid \<longleftrightarrow> False"

lemma appendBase128Int_nonempty [simp]: "appendBase128Int n \<noteq> []"
  by (simp add: appendBase128Int_def base128_length.simps [of n])

lemma parseSubidentifiers_append:
  "\<forall>v \<in> set vs. v < 2 ^ 31 \<Longrightarrow> parseSubidentifiers (concat (map appendBase128Int vs)) = Inr vs"
  by (induction vs) (simp_all add: parseSubidentifiers.simps [of "_ @ _"] parse_append_base128
      parseSubidentifiers.simps [of "[]"])

lemma makeObjectIdentifier_ok: "oid_ok oid \<Longrightarrow> \<exists>bs. makeObjectIdentifier oid = Inr bs"
  by (cases oid rule: oid_ok.cases) auto

lemma parse_makeObjectIdentifier:
  assumes "oid_ok oid" "makeObjectIdentifier oid = Inr bs"
  shows "parseObjectIdentifier bs = Inr oid"
proof -
  from assms(1) obtain a b cs where oid: "oid = a # b # cs" by (cases oid rule: oid_ok.cases) auto
  with assms have bs: "bs = concat (map appendBase128Int ((a * 40 + b) # cs))" by (auto split: if_splits)
  have "parseSubidentifiers bs = Inr ((a * 40 + b) # cs)"
    unfolding bs using assms(1) oid by (intro parseSubidentifiers_append) simp
  moreover have "bs \<noteq> []" unfolding bs by simp
  moreover have "(a * 40 + b) div 40 = a \<and> (a * 40 + b) mod 40 = b" if "a < 2"
    using that assms(1) oid by simp
  moreover have "a = 2" if "\<not> a < 2" using that assms(1) oid by simp
  moreover have "a * 40 + b < 80 \<longleftrightarrow> a < 2" using assms(1) oid by auto
  ultimately show ?thesis by (cases "a < 2") (simp_all add: parseObjectIdentifier_def oid)
qed

end
