(* ===== verification/Asn1Fields.thy ===== *)
theory Asn1Fields
  imports Asn1Values
begin

text \<open>
  The field parser of \<open>encoding/asn1\<close> (\<open>parseField\<close>, \<open>parseSequenceOf\<close>) and the encoder of
  tagged values (\<open>makeField\<close>): universal, implicitly and explicitly tagged, optional fields,
  structures whose SEQUENCE may hold more than the fields that are known, SEQUENCE OF and SET OF.
\<close>

section \<open>Values\<close>

record RawValue =
  rvClass :: nat
  rvTag :: nat
  rvIsCompound :: bool
  rvBytes :: bytes
  rvFullBytes :: bytes

definition rawZero :: RawValue where
  "rawZero = \<lparr>rvClass = 0, rvTag = 0, rvIsCompound = False, rvBytes = [], rvFullBytes = []\<rparr>"

definition rawOf :: "nat \<Rightarrow> nat \<Rightarrow> bool \<Rightarrow> bytes \<Rightarrow> RawValue" where
  "rawOf cls tag compound body =
     \<lparr>rvClass = cls, rvTag = tag, rvIsCompound = compound, rvBytes = body, rvFullBytes = []\<rparr>"

definition rawFull :: "bytes \<Rightarrow> RawValue" where
  "rawFull full = \<lparr>rvClass = 0, rvTag = 0, rvIsCompound = False, rvBytes = [], rvFullBytes = full\<rparr>"

text \<open>A tagged value: header and body.\<close>

definition tlv :: "nat \<Rightarrow> bool \<Rightarrow> nat \<Rightarrow> bytes \<Rightarrow> bytes" where
  "tlv cls compound tag body =
     appendTagAndLength \<lparr>hClass = cls, hTag = tag, hLen = length body, hCompound = compound\<rparr> @ body"

definition marshalRaw :: "RawValue \<Rightarrow> bytes" where
  "marshalRaw rv =
     (if rvFullBytes rv \<noteq> [] then rvFullBytes rv
      else tlv (rvClass rv) (rvIsCompound rv) (rvTag rv) (rvBytes rv))"

definition marshalInt :: "int \<Rightarrow> bytes" where
  "marshalInt i = tlv 0 False 2 (int_bytes i)"

definition marshalOctets :: "bytes \<Rightarrow> bytes" where
  "marshalOctets bs = tlv 0 False 4 bs"

definition marshalOID :: "oid \<Rightarrow> bytes result" where
  "marshalOID oid = and_then (makeObjectIdentifier oid) (\<lambda>body. Inr (tlv 0 False 6 body))"

section \<open>Decoders\<close>

type_synonym 'a decoder = "bytes \<Rightarrow> ('a \<times> bytes) result"

text \<open>The tag a field expects.\<close>

definition universal :: "nat \<Rightarrow> bool \<Rightarrow> header \<Rightarrow> bool" where
  "universal tag compound h \<longleftrightarrow> hClass h = 0 \<and> hTag h = tag \<and> hCompound h = compound"

definition implicit :: "nat \<Rightarrow> bool \<Rightarrow> header \<Rightarrow> bool" where
  "implicit tag compound h \<longleftrightarrow> hClass h = 2 \<and> hTag h = tag \<and> hCompound h = compound"

text \<open>An optional field that is missing keeps its default and consumes nothing.\<close>

definition orDefault :: "go_error \<Rightarrow> 'a option \<Rightarrow> 'a decoder" where
  "orDefault e dflt bs = (case dflt of Some d \<Rightarrow> Inr (d, bs) | None \<Rightarrow> Inl e)"

text \<open>The part of \<open>parseField\<close> after the header \<open>h\<close> of the value, which \<open>rest\<close> follows.\<close>

definition parseValue ::
  "(header \<Rightarrow> bool) \<Rightarrow> (header \<Rightarrow> bytes \<Rightarrow> bytes \<Rightarrow> 'a result) \<Rightarrow> 'a option \<Rightarrow> bytes \<Rightarrow> header \<Rightarrow> 'a decoder" where
  "parseValue matches content dflt bs h rest =
     (if \<not> matches h then orDefault (Asn1Error TagsDontMatch) dflt bs
      else if hLen h > length rest then Inl (Asn1Error DataTruncated)
      else and_then (content h (take (hLen h) rest) (take (length bs - length rest + hLen h) bs))
        (\<lambda>v. Inr (v, drop (hLen h) rest)))"

definition parseField ::
  "(header \<Rightarrow> bool) \<Rightarrow> (header \<Rightarrow> bytes \<Rightarrow> bytes \<Rightarrow> 'a result) \<Rightarrow> 'a option \<Rightarrow> 'a decoder" where
  "parseField matches content dflt bs =
     (if bs = [] then orDefault (Asn1Error SequenceTruncated) dflt bs
      else and_then (parseTagAndLength bs) (\<lambda>(h, rest). parseValue matches content dflt bs h rest))"

text \<open>
  A field with an explicit tag. The header of the inner value is read without regard to the
  length of the outer one.
\<close>

definition parseExplicit ::
  "nat \<Rightarrow> (header \<Rightarrow> bool) \<Rightarrow> (header \<Rightarrow> bytes \<Rightarrow> bytes \<Rightarrow> 'a result) \<Rightarrow> 'a option \<Rightarrow> 'a decoder" where
  "parseExplicit tag matches content dflt bs =
     (if bs = [] then orDefault (Asn1Error SequenceTruncated) dflt bs
      else and_then (parseTagAndLength bs) (\<lambda>(t, rest).
        if rest = [] then Inl (Asn1Error ExplicitNoChild)
        else if hClass t = 2 \<and> hTag t = tag \<and> (hLen t = 0 \<or> hCompound t)
        then (if hLen t > 0
              then and_then (parseTagAndLength rest) (\<lambda>(h, rest). parseValue matches content dflt bs h rest)
              else Inl (Asn1Error ZeroLengthExplicit))
        else orDefault (Asn1Error ExplicitMismatch) dflt bs))"

text \<open>An explicitly tagged \<open>RawValue\<close> holds the outer tag and is not unwrapped.\<close>

definition rawContent :: "header \<Rightarrow> bytes \<Rightarrow> bytes \<Rightarrow> RawValue result" where
  "rawContent h inner full =
     Inr \<lparr>rvClass = hClass h, rvTag = hTag h, rvIsCompound = hCompound h, rvBytes = inner, rvFullBytes = full\<rparr>"

definition parseExplicitRaw :: "nat \<Rightarrow> RawValue option \<Rightarrow> RawValue decoder" where
  "parseExplicitRaw tag dflt bs =
     (if bs = [] then orDefault (Asn1Error SequenceTruncated) dflt bs
      else and_then (parseTagAndLength bs) (\<lambda>(t, rest).
        if rest = [] then Inl (Asn1Error ExplicitNoChild)
        else if hClass t = 2 \<and> hTag t = tag \<and> (hLen t = 0 \<or> hCompound t)
        then parseValue (\<lambda>_. True) rawContent dflt bs t rest
        else orDefault (Asn1Error ExplicitMismatch) dflt bs))"

definition parseRaw :: "RawValue option \<Rightarrow> RawValue decoder" where
  "parseRaw = parseField (\<lambda>_. True) rawContent"

definition parseInt :: "int decoder" where
  "parseInt = parseField (universal 2 False) (\<lambda>_ inner _. parseInt64 inner) None"

definition parseBig :: "int decoder" where
  "parseBig = parseField (universal 2 False) (\<lambda>_ inner _. parseBigInt inner) None"

definition parseOctets :: "bytes decoder" where
  "parseOctets = parseField (universal 4 False) (\<lambda>_ inner _. Inr inner) None"

definition parseOID :: "oid decoder" where
  "parseOID = parseField (universal 6 False) (\<lambda>_ inner _. parseObjectIdentifier inner) None"

text \<open>The fields of a structure are read from its body; bytes left over are ignored.\<close>

definition structContent :: "'a decoder \<Rightarrow> header \<Rightarrow> bytes \<Rightarrow> bytes \<Rightarrow> 'a result" where
  "structContent flds h inner full = and_then (flds inner) (\<lambda>(v, _). Inr v)"

definition parseStruct :: "'a decoder \<Rightarrow> 'a option \<Rightarrow> 'a decoder" where
  "parseStruct flds = parseField (universal 16 True) (structContent flds)"

lemma parseLengthOctets_shorter: "parseLengthOctets n acc bs = Inr (len, rest) \<Longrightarrow> length rest \<le> length bs"
  by (induction n acc bs rule: parseLengthOctets.induct) (fastforce simp: Let_def split: if_splits)+

lemma parseTagAndLength_shorter:
  assumes "parseTagAndLength bs = Inr (h, rest)"
  shows "length rest < length bs"
proof -
  from assms obtain b bs' where bs: "bs = b # bs'" by (cases bs) (auto simp: parseTagAndLength_def)
  have len: "length rest' < length r" if "parseLength r = Inr (l, rest')" for r l rest'
    using that by (auto simp: parseLength_def split: list.splits if_splits dest!: parseLengthOctets_shorter)
  from assms bs show ?thesis
    by (auto simp: parseTagAndLength_def Let_def split: if_splits dest!: len parseBase128Int_shorter)
qed

function checkElements :: "(header \<Rightarrow> bool) \<Rightarrow> bytes \<Rightarrow> nat result" where
  "checkElements matches bs =
     (if bs = [] then Inr 0
      else and_then (parseTagAndLength bs) (\<lambda>(h, rest).
        if \<not> matches h then Inl (Asn1Error SequenceTagMismatch)
        else if hLen h > length rest then Inl (Asn1Error TruncatedSequence)
        else and_then (checkElements matches (drop (hLen h) rest)) (\<lambda>n. Inr (Suc n))))"
  by pat_completeness auto
termination
  by (relation "measure (\<lambda>(_, bs). length bs)") (auto dest!: parseTagAndLength_shorter)

declare checkElements.simps [simp del]

fun parseElements :: "nat \<Rightarrow> 'a decoder \<Rightarrow> bytes \<Rightarrow> 'a list result" where
  "parseElements 0 elem bs = Inr []"
| "parseElements (Suc n) elem bs =
     and_then (elem bs) (\<lambda>(v, rest). and_then (parseElements n elem rest) (\<lambda>vs. Inr (v # vs)))"

definition sequenceOf :: "(header \<Rightarrow> bool) \<Rightarrow> 'a decoder \<Rightarrow> header \<Rightarrow> bytes \<Rightarrow> bytes \<Rightarrow> 'a list result" where
  "sequenceOf matches elem h inner full =
     and_then (checkElements matches inner) (\<lambda>n. parseElements n elem inner)"

definition parseSetOf :: "(header \<Rightarrow> bool) \<Rightarrow> 'a decoder \<Rightarrow> 'a list decoder" where
  "parseSetOf matches elem = parseField (universal 17 True) (sequenceOf matches elem) None"

section \<open>Encoders of composite values\<close>

fun allResults :: "'a result list \<Rightarrow> 'a list result" where
  "allResults [] = Inr []"
| "allResults (r # rs) = and_then r (\<lambda>v. and_then (allResults rs) (\<lambda>vs. Inr (v # vs)))"

definition marshalSequence :: "bytes result list \<Rightarrow> bytes result" where
  "marshalSequence parts = and_then (allResults parts) (\<lambda>ps. Inr (tlv 0 True 16 (concat ps)))"

text \<open>The elements of a SET OF are sorted by their encoding.\<close>

definition setBody :: "bytes result list \<Rightarrow> bytes result" where
  "setBody elems = and_then (allResults elems) (\<lambda>parts. Inr (concat (sort parts)))"

definition marshalSetOf :: "bytes result list \<Rightarrow> bytes result" where
  "marshalSetOf elems = and_then (setBody elems) (\<lambda>body. Inr (tlv 0 True 17 body))"

section \<open>The laws\<close>

lemma length_tlv: "length (tlv cls compound tag body) =
    length (appendTagAndLength \<lparr>hClass = cls, hTag = tag, hLen = length body, hCompound = compound\<rparr>) + length body"
  by (simp add: tlv_def)

lemma length_body_le: "length body \<le> length (tlv cls compound tag body)"
  by (simp add: length_tlv)

lemma tlv_nonempty [simp]: "tlv cls compound tag body \<noteq> []"
  by (simp add: tlv_def appendTagAndLength_def tagOctets_def)

lemma parse_tlv:
  assumes "cls < 4" "tag < 2 ^ 31" "length body < 2 ^ 31"
  shows "parseTagAndLength (tlv cls compound tag body @ rest) =
    Inr (\<lparr>hClass = cls, hTag = tag, hLen = length body, hCompound = compound\<rparr>, body @ rest)"
  using assms header.dec_enc [of "\<lparr>hClass = cls, hTag = tag, hLen = length body, hCompound = compound\<rparr>"]
  by (simp add: tlv_def header_ok_def)

lemma parseField_tlv:
  assumes "cls < 4" "tag < 2 ^ 31" "length body < 2 ^ 31"
    and h: "h = \<lparr>hClass = cls, hTag = tag, hLen = length body, hCompound = compound\<rparr>"
  shows "parseField matches content dflt (tlv cls compound tag body @ rest) =
    (if matches h then and_then (content h body (tlv cls compound tag body)) (\<lambda>v. Inr (v, rest))
     else orDefault (Asn1Error TagsDontMatch) dflt (tlv cls compound tag body @ rest))"
proof -
  have "length (tlv cls compound tag body) + length rest - (length body + length rest) + length body
      = length (tlv cls compound tag body)"
    using length_body_le [of body cls compound tag] by simp
  then show ?thesis
    using parse_tlv [OF assms(1-3), of compound rest]
    by (simp add: parseField_def parseValue_def h)
qed

text \<open>The same with nothing after it, the shape of a last field.\<close>

lemmas parseField_tlv_last = parseField_tlv [OF _ _ _ refl, where rest = "[]", simplified append_Nil2]

interpretation int64: codec marshalInt parseInt "\<lambda>i. -(2 ^ 63) \<le> i \<and> i < 2 ^ 63"
proof unfold_locales
  fix i :: int and rest
  assume i: "-(2 ^ 63) \<le> i \<and> i < 2 ^ 63"
  then have "length (int_bytes i) \<le> 8" using length_int_bytes [of 7 i] by simp
  then have "length (int_bytes i) < 2 ^ 31" by simp
  with i show "parseInt (marshalInt i @ rest) = Inr (i, rest)"
    unfolding parseInt_def marshalInt_def by (subst parseField_tlv [OF _ _ _ refl]) (simp_all add: universal_def)
qed

interpretation big: codec marshalInt parseBig "\<lambda>i. length (marshalInt i) < 2 ^ 31"
proof unfold_locales
  fix i :: int and rest
  assume "length (marshalInt i) < 2 ^ 31"
  then have "length (int_bytes i) < 2 ^ 31"
    unfolding marshalInt_def by (rule order.strict_trans1 [OF length_body_le])
  then show "parseBig (marshalInt i @ rest) = Inr (i, rest)"
    unfolding parseBig_def marshalInt_def by (subst parseField_tlv [OF _ _ _ refl]) (simp_all add: universal_def)
qed

interpretation octets: codec marshalOctets parseOctets "\<lambda>bs. length bs < 2 ^ 31"
  by unfold_locales (simp add: parseOctets_def marshalOctets_def parseField_tlv [OF _ _ _ refl] universal_def)

lemma oid_dec_enc:
  assumes "oid_ok oid" "marshalOID oid = Inr bs" "length bs < 2 ^ 31"
  shows "parseOID (bs @ rest) = Inr (oid, rest)"
proof -
  from assms(2) obtain body where body: "makeObjectIdentifier oid = Inr body" "bs = tlv 0 False 6 body"
    by (auto simp: marshalOID_def)
  with assms(3) length_body_le [of body 0 False 6] have "length body < 2 ^ 31" by simp
  with body parse_makeObjectIdentifier [OF assms(1) body(1)] show ?thesis
    by (simp add: parseOID_def parseField_tlv [OF _ _ _ refl] universal_def)
qed

section \<open>Elements\<close>

text \<open>Headers are read from the front: what follows does not matter.\<close>

lemma base128_loop_append:
  "base128_loop shifted acc bs = Inr (v, rest) \<Longrightarrow> base128_loop shifted acc (bs @ tail) = Inr (v, rest @ tail)"
  by (induction shifted acc bs rule: base128_loop.induct) (auto simp: Let_def split: if_splits)

lemma parseLengthOctets_append:
  "parseLengthOctets n acc bs = Inr (len, rest) \<Longrightarrow> parseLengthOctets n acc (bs @ tail) = Inr (len, rest @ tail)"
  by (induction n acc bs rule: parseLengthOctets.induct) (auto simp: Let_def split: if_splits)

lemma parseLength_append:
  "parseLength bs = Inr (len, rest) \<Longrightarrow> parseLength (bs @ tail) = Inr (len, rest @ tail)"
  by (auto simp: parseLength_def parseLengthOctets_append split: list.splits if_splits)

lemma parseTagAndLength_append:
  assumes "parseTagAndLength bs = Inr (h, rest)"
  shows "parseTagAndLength (bs @ tail) = Inr (h, rest @ tail)"
proof -
  from assms obtain b bs' where bs: "bs = b # bs'" by (cases bs) (auto simp: parseTagAndLength_def)
  from assms show ?thesis
    by (auto simp: bs parseTagAndLength_def Let_def parseBase128Int_def base128_loop_append
        parseLength_append split: if_splits)
qed

text \<open>Exactly one value, whose header satisfies a condition.\<close>

definition element :: "(header \<Rightarrow> bool) \<Rightarrow> bytes \<Rightarrow> bool" where
  "element matches bs \<longleftrightarrow> (case parseTagAndLength bs of Inl e \<Rightarrow> False
     | Inr (h, rest) \<Rightarrow> matches h \<and> length rest = hLen h)"

definition elementHeader :: "bytes \<Rightarrow> header" where
  "elementHeader bs = (case parseTagAndLength bs of Inr (h, _) \<Rightarrow> h)"

definition elementBody :: "bytes \<Rightarrow> bytes" where
  "elementBody bs = (case parseTagAndLength bs of Inr (_, rest) \<Rightarrow> rest)"

lemma elementE:
  assumes "element matches bs"
  obtains h body where "parseTagAndLength bs = Inr (h, body)" "matches h" "length body = hLen h"
    "elementHeader bs = h" "elementBody bs = body"
  using assms by (auto simp: element_def elementHeader_def elementBody_def split: sum.splits)

lemma element_mono: "element P bs \<Longrightarrow> (\<And>h. P h \<Longrightarrow> Q h) \<Longrightarrow> element Q bs"
  by (auto simp: element_def split: sum.splits)

lemma element_nonempty: "element P bs \<Longrightarrow> bs \<noteq> []"
  by (auto simp: element_def parseTagAndLength_def)

lemma element_tlv:
  assumes "cls < 4" "tag < 2 ^ 31" "length body < 2 ^ 31"
  shows "element P (tlv cls compound tag body) \<longleftrightarrow>
      P \<lparr>hClass = cls, hTag = tag, hLen = length body, hCompound = compound\<rparr>"
    and "elementBody (tlv cls compound tag body) = body"
    and "elementHeader (tlv cls compound tag body) =
      \<lparr>hClass = cls, hTag = tag, hLen = length body, hCompound = compound\<rparr>"
  using parse_tlv [OF assms, of compound "[]"] by (simp_all add: element_def elementBody_def elementHeader_def)

lemma parseField_element:
  assumes "element matches bs"
  shows "parseField matches content dflt (bs @ rest) =
    and_then (content (elementHeader bs) (elementBody bs) bs) (\<lambda>v. Inr (v, rest))"
proof -
  from assms obtain h body where h: "parseTagAndLength bs = Inr (h, body)" "matches h" "length body = hLen h"
    "elementHeader bs = h" "elementBody bs = body" by (rule elementE)
  from parseTagAndLength_shorter [OF h(1)]
  have "length bs + length rest - (length body + length rest) + hLen h = length bs" using h(3) by simp
  then show ?thesis
    using h parseTagAndLength_append [OF h(1), of rest] element_nonempty [OF assms]
    by (simp add: parseField_def parseValue_def)
qed

text \<open>The \<open>RawValue\<close> an element is read as.\<close>

definition rawElement :: "bytes \<Rightarrow> RawValue" where
  "rawElement bs = \<lparr>rvClass = hClass (elementHeader bs), rvTag = hTag (elementHeader bs),
     rvIsCompound = hCompound (elementHeader bs), rvBytes = elementBody bs, rvFullBytes = bs\<rparr>"

interpretation raw: codec "\<lambda>rv. rvFullBytes rv" "parseRaw dflt"
  "\<lambda>rv. element (\<lambda>_. True) (rvFullBytes rv) \<and> rv = rawElement (rvFullBytes rv)"
  by unfold_locales (simp add: parseRaw_def parseField_element rawContent_def, simp add: rawElement_def)

lemma parseRaw_element: "element (\<lambda>_. True) bs \<Longrightarrow> parseRaw dflt (bs @ rest) = Inr (rawElement bs, rest)"
  using raw.dec_enc [of "rawElement bs" dflt rest] by (simp add: rawElement_def)

lemma parseRaw_tlv:
  assumes "cls < 4" "tag < 2 ^ 31" "length body < 2 ^ 31"
  shows "parseRaw dflt (tlv cls compound tag body @ rest) =
    Inr (\<lparr>rvClass = cls, rvTag = tag, rvIsCompound = compound, rvBytes = body,
      rvFullBytes = tlv cls compound tag body\<rparr>, rest)"
  using parseRaw_element [of "tlv cls compound tag body" dflt rest] element_tlv [OF assms]
  by (simp add: rawElement_def)

lemma parseStruct_tlv:
  assumes "length body < 2 ^ 31" "flds body = Inr (v, tail)"
  shows "parseStruct flds dflt (tlv 0 True 16 body @ rest) = Inr (v, rest)"
  using assms by (simp add: parseStruct_def parseField_tlv [OF _ _ _ refl] universal_def structContent_def)

section \<open>Sequences\<close>

lemma checkElements_concat:
  "\<forall>e \<in> set es. element matches e \<Longrightarrow> checkElements matches (concat es) = Inr (length es)"
proof (induction es)
  case (Cons e es)
  then obtain h body where h: "parseTagAndLength e = Inr (h, body)" "matches h" "length body = hLen h"
    by (auto elim: elementE)
  have "e \<noteq> []" using Cons.prems by (auto dest: element_nonempty)
  with Cons h parseTagAndLength_append [OF h(1), of "concat es"] show ?case
    by (subst checkElements.simps) simp
qed (simp add: checkElements.simps)

lemma parseElements_concat:
  "(\<And>e v r. (e, v) \<in> set evs \<Longrightarrow> elem (e @ r) = Inr (v, r)) \<Longrightarrow>
     parseElements (length evs) elem (concat (map fst evs)) = Inr (map snd evs)"
proof (induction evs)
  case (Cons ev evs)
  obtain e v where ev: "ev = (e, v)" by (cases ev)
  have "elem (e @ concat (map fst evs)) = Inr (v, concat (map fst evs))" using Cons.prems ev by simp
  moreover have "parseElements (length evs) elem (concat (map fst evs)) = Inr (map snd evs)"
    using Cons.prems by (intro Cons.IH) simp
  ultimately show ?case by (simp add: ev)
qed simp

lemma sequenceOf_map:
  assumes "\<And>v. v \<in> set vs \<Longrightarrow> element matches (enc v)"
    and "\<And>v r. v \<in> set vs \<Longrightarrow> elem (enc v @ r) = Inr (norm v, r)"
  shows "sequenceOf matches elem h (concat (map enc vs)) full = Inr (map norm vs)"
proof -
  let ?evs = "map (\<lambda>v. (enc v, norm v)) vs"
  have "checkElements matches (concat (map enc vs)) = Inr (length (map enc vs))"
    using assms(1) by (intro checkElements_concat) simp
  moreover have "parseElements (length ?evs) elem (concat (map fst ?evs)) = Inr (map snd ?evs)"
    using assms(2) by (intro parseElements_concat) auto
  ultimately show ?thesis by (simp add: sequenceOf_def o_def)
qed

lemma map_insort_key: "map f (insort_key f x xs) = insort (f x) (map f xs)"
  by (induction xs) simp_all

lemma sort_map: "sort (map f xs) = map f (sort_key f xs)"
  by (induction xs) (simp_all add: map_insort_key)

lemma allResults_Inr [simp]: "allResults (map (\<lambda>x. Inr (f x)) xs) = Inr (map f xs)"
  by (induction xs) simp_all

lemma allResults_Inr_iff: "allResults rs = Inr vs \<longleftrightarrow> rs = map Inr vs"
proof (induction rs arbitrary: vs)
  case (Cons r rs)
  show ?case by (cases vs) (auto simp: and_then_Inr_iff Cons.IH)
qed auto

end
