(* ===== verification/Asn1Der.thy ===== *)
theory Asn1Der
  imports BerDer Asn1Fields
begin

unbundle bit_operations_syntax

text \<open>
  Where the two readers of the package meet: what \<open>encoding/asn1\<close> writes is DER, so the
  transcoder of \<open>ber.go\<close> leaves it as it is.
\<close>

section \<open>Encodings of objects\<close>

text \<open>One value, and a sequence of values, nested at most \<open>k\<close> deep, as \<open>ber.go\<close> would write them.\<close>

definition der_item :: "nat \<Rightarrow> bytes \<Rightarrow> bool" where
  "der_item k bs \<longleftrightarrow> (\<exists>obj. der_ok k obj \<and> bs = encode obj)"

definition der_items :: "nat \<Rightarrow> bytes \<Rightarrow> bool" where
  "der_items k bs \<longleftrightarrow> (\<exists>objs. (\<forall>obj \<in> set objs. der_ok k obj) \<and> bs = encodes objs)"

named_theorems der_intros

lemma der_items_Nil [der_intros]: "der_items k []"
  unfolding der_items_def by (intro exI [of _ "[]"]) simp

lemma der_items_append [der_intros]: "der_items k xs \<Longrightarrow> der_items k ys \<Longrightarrow> der_items k (xs @ ys)"
  unfolding der_items_def by (elim exE, rename_tac os ps, rule_tac x = "os @ ps" in exI) auto

lemma der_items_single [der_intros]: "der_item k bs \<Longrightarrow> der_items k bs"
  unfolding der_item_def der_items_def by (elim exE, rule_tac x = "[obj]" in exI) simp

lemma der_items_concat [der_intros]: "\<forall>x \<in> set xs. der_items k x \<Longrightarrow> der_items k (concat xs)"
  by (induction xs) (auto intro: der_intros)

lemma der_ok_Suc: "der_ok k obj \<Longrightarrow> der_ok (Suc k) obj"
  by (induction k obj rule: der_ok.induct) auto

lemma der_item_Suc: "der_item k bs \<Longrightarrow> der_item (Suc k) bs"
  by (auto simp: der_item_def intro: der_ok_Suc)

lemma der_items_Suc: "der_items k bs \<Longrightarrow> der_items (Suc k) bs"
  by (auto simp: der_items_def intro!: der_ok_Suc)

lemma der_items_mono: "der_items k bs \<Longrightarrow> k \<le> l \<Longrightarrow> der_items l bs"
  by (induction l) (auto simp: le_Suc_eq intro: der_items_Suc)

lemma der_item_mono: "der_item k bs \<Longrightarrow> k \<le> l \<Longrightarrow> der_item l bs"
  by (induction l) (auto simp: le_Suc_eq intro: der_item_Suc)

lemma der_item_nonempty: "der_item k bs \<Longrightarrow> bs \<noteq> []"
  using der_ok_encodes ber_tlv_length by (fastforce simp: der_item_def)

text \<open>The transcoder's fixpoints.\<close>

lemma ber2der_item:
  assumes "der_item (Suc maxNestingDepth) bs"
  shows "ber2der bs = Inr bs"
proof -
  from assms obtain obj where obj: "der_ok (Suc maxNestingDepth) obj" "bs = encode obj"
    by (auto simp: der_item_def)
  from reader_complete(1) [OF der_ok_encodes [OF obj(1)], of 0 "[]" "[]"] obj(2) der_item_nonempty [OF assms]
  show ?thesis by (simp add: ber2der_def)
qed

section \<open>Tagged values\<close>

lemma unat_and_1F: "unat (b AND 0x1F :: byte) = unat b mod 32"
proof -
  have "(0x1F :: byte) = mask 5" by (simp add: mask_eq_exp_minus_1)
  then have "b AND 0x1F = take_bit 5 b" by (simp add: take_bit_eq_mask)
  then show ?thesis by (simp add: unsigned_take_bit_eq) (simp add: take_bit_eq_mod)
qed

lemma and_20_iff: "(b :: byte) AND 0x20 = 0 \<longleftrightarrow> unat b div 32 mod 2 = 0"
proof -
  have "b AND 2 ^ 5 = 0 \<longleftrightarrow> \<not> bit b 5" by (rule and_exp_eq_0_iff_not_bit)
  also have "bit b 5 \<longleftrightarrow> bit (unat b) 5" by (simp add: bit_unsigned_iff)
  also have "\<dots> \<longleftrightarrow> unat b div 32 mod 2 = 1" by (simp add: bit_iff_odd odd_iff_mod_2_eq_one)
  finally show ?thesis by simp
qed

lemma tagOctets_ber:
  assumes "cls < 4" "tag < 31"
  shows "ber_tag (tagOctets cls compound tag)" "hd (tagOctets cls compound tag) AND 0x20 = 0 \<longleftrightarrow> \<not> compound"
proof -
  let ?n = "cls * 64 + (if compound then 32 else 0) + tag"
  let ?b = "word_of_nat ?n :: byte"
  have t: "tagOctets cls compound tag = [?b]" using assms by (simp add: tagOctets_def)
  have "?n < 256" using assms by auto
  then have b: "unat ?b = ?n" by (rule unat_byte_small)
  note parts = header_octet [of tag cls compound]
  have "unat (?b AND 0x1F) = tag" unfolding unat_and_1F b using parts assms by simp
  then have "?b AND 0x1F \<noteq> 0x1F" using assms by auto
  then show "ber_tag (tagOctets cls compound tag)" unfolding t by simp
  have "?n div 32 mod 2 = 0 \<longleftrightarrow> \<not> compound" using parts(3) assms by fastforce
  then show "hd (tagOctets cls compound tag) AND 0x20 = 0 \<longleftrightarrow> \<not> compound"
    unfolding t list.sel and_20_iff b .
qed

lemma der_item_primitive [der_intros]:
  assumes "cls < 4" "tag < 31" "length body < 2 ^ 31"
  shows "der_item (Suc k) (tlv cls False tag body)"
  unfolding der_item_def
proof (intro exI conjI)
  show "der_ok (Suc k) (Asn1Primitive (tagOctets cls False tag) (length body) body)"
    using assms tagOctets_ber [OF assms(1,2), of False] by simp
  show "tlv cls False tag body = encode (Asn1Primitive (tagOctets cls False tag) (length body) body)"
    by (simp add: tlv_def appendTagAndLength_def encode_simps)
qed

lemma der_item_constructed [der_intros]:
  assumes "cls < 4" "tag < 31" "length body < 2 ^ 31" "der_items k body"
  shows "der_item (Suc k) (tlv cls True tag body)"
proof -
  from assms(4) obtain objs where objs: "\<forall>obj \<in> set objs. der_ok k obj" "body = encodes objs"
    by (auto simp: der_items_def)
  show ?thesis
    unfolding der_item_def
  proof (intro exI conjI)
    show "der_ok (Suc k) (Asn1Structured (tagOctets cls True tag) objs)"
      using assms objs tagOctets_ber [OF assms(1,2), of True] by simp
    show "tlv cls True tag body = encode (Asn1Structured (tagOctets cls True tag) objs)"
      by (simp add: tlv_def appendTagAndLength_def encode_simps objs)
  qed
qed

section \<open>Sizes\<close>

text \<open>A value that is one element is not too long for the reader.\<close>

lemma parseLengthOctets_suffix:
  "parseLengthOctets n acc bs = Inr (len, rest) \<Longrightarrow> rest = drop n bs \<and> (len < 2 ^ 31 \<or> len = acc)"
proof (induction n acc bs rule: parseLengthOctets.induct)
  case (3 n acc b bs)
  from "3.prems" have acc: "acc < 2 ^ 23" "acc * 256 + unat b \<noteq> 0"
    and rec: "parseLengthOctets n (acc * 256 + unat b) bs = Inr (len, rest)"
    by (auto simp: Let_def split: if_splits)
  have "(2 :: nat) ^ 31 = 2 ^ 23 * 256" by simp
  with acc(1) unat_byte_less [of b] have "acc * 256 + unat b < 2 ^ 31" by linarith
  with "3.IH" [OF _ refl _ rec] acc show ?case by auto
qed simp_all

lemma parseLength_long:
  assumes "parseLength (b # bs) = Inr (len, rest)" "\<not> b < 0x80"
  shows "rest = drop (unat b - 128) bs \<and> len < 2 ^ 31"
proof -
  from assms have octets: "parseLengthOctets (unat b - 128) 0 bs = Inr (len, rest)"
    by (auto simp: parseLength_def split: if_splits)
  from parseLengthOctets_suffix [OF this] show ?thesis by auto
qed

lemma long_form_octet: "unat (0x80 OR w :: byte) - 128 \<le> unat w"
proof -
  have "(0x80 OR w) AND 0x7F = w AND 0x7F" by (simp add: bit.conj_disj_distrib2)
  then have mod: "unat (0x80 OR w) mod 128 = unat w mod 128" by (simp flip: unat_and_7F)
  have "n - 128 \<le> n mod 128" if "n < 256" for n :: nat
    using that by (cases "n < 128") (simp_all add: le_mod_geq)
  from this [OF unat_byte_less] have "unat (0x80 OR w) - 128 \<le> unat (0x80 OR w) mod 128" .
  also have "\<dots> \<le> unat w" unfolding mod by simp
  finally show ?thesis .
qed

lemma parse_tlv_rest:
  assumes h: "parseTagAndLength (tlv cls compound tag body) = Inr (h, rest)" and "cls < 4" "tag < 31" "\<not> length body < 128"
  shows "length body \<le> length rest" "hLen h < 2 ^ 31"
proof -
  let ?n = "cls * 64 + (if compound then 32 else 0) + tag" and ?L = "lengthLength (length body)"
  have "?n < 256" using assms(2,3) by auto
  then have b: "unat (word_of_nat ?n :: byte) = ?n" by (rule unat_byte_small)
  have "?n mod 32 = tag" using header_octet(2) [of tag cls compound] assms(3) by simp
  then have tag: "unat (word_of_nat ?n :: byte) mod 32 \<noteq> 31" unfolding b using assms(3) by simp
  have t: "tlv cls compound tag body = word_of_nat ?n # der_length (length body) @ body"
    using assms(3) by (simp add: tlv_def appendTagAndLength_def tagOctets_def)
  from h tag have len: "parseLength (der_length (length body) @ body) = Inr (hLen h, rest)"
    unfolding t by (auto simp: parseTagAndLength_def Let_def)
  let ?b = "0x80 OR word_of_nat ?L :: byte"
  have d: "der_length (length body) @ body = ?b # be_bytes ?L (length body) @ body"
    using assms(4) by (simp add: der_length_eq)
  have "\<not> ?b < 0x80" by (simp only: not_less le_word_or2)
  from parseLength_long [OF len [unfolded d] this]
  have rest: "rest = drop (unat ?b - 128) (be_bytes ?L (length body) @ body)" "hLen h < 2 ^ 31" by simp_all
  show "hLen h < 2 ^ 31" by (rule rest(2))
  have "unat ?b - 128 \<le> unat (word_of_nat ?L :: byte)" by (rule long_form_octet)
  also have "\<dots> \<le> ?L" by simp
  finally show "length body \<le> length rest" unfolding rest(1) by simp
qed

lemma element_tlv_small:
  assumes "element P (tlv cls compound tag body)" "cls < 4" "tag < 31"
  shows "length body < 2 ^ 31"
proof (cases "length body < 128")
  case False
  from assms(1) obtain h rest where h: "parseTagAndLength (tlv cls compound tag body) = Inr (h, rest)" "length rest = hLen h"
    by (auto elim: elementE)
  from parse_tlv_rest [OF h(1) assms(2,3) False] h(2) show ?thesis by simp
qed simp

end
