(* ===== verification/Oids.thy ===== *)
theory Oids
  imports Asn1Fields
begin

text \<open>
  The object identifiers of \<open>pkcs7.go\<close>, \<open>pkix.AlgorithmIdentifier\<close>, and the keys the package
  tells apart: the algorithm tables that map them onto hashes and signature algorithms are in
  \<open>Algorithms\<close>.
\<close>

section \<open>Object identifiers\<close>

definition OIDData :: oid where "OIDData = [1, 2, 840, 113549, 1, 7, 1]"
definition OIDSignedData :: oid where "OIDSignedData = [1, 2, 840, 113549, 1, 7, 2]"
definition OIDEnvelopedData :: oid where "OIDEnvelopedData = [1, 2, 840, 113549, 1, 7, 3]"
definition OIDEncryptedData :: oid where "OIDEncryptedData = [1, 2, 840, 113549, 1, 7, 6]"
definition OIDAttributeContentType :: oid where "OIDAttributeContentType = [1, 2, 840, 113549, 1, 9, 3]"
definition OIDAttributeMessageDigest :: oid where "OIDAttributeMessageDigest = [1, 2, 840, 113549, 1, 9, 4]"
definition OIDAttributeSigningTime :: oid where "OIDAttributeSigningTime = [1, 2, 840, 113549, 1, 9, 5]"
definition OIDDigestAlgorithmSHA1 :: oid where "OIDDigestAlgorithmSHA1 = [1, 3, 14, 3, 2, 26]"
definition OIDDigestAlgorithmSHA256 :: oid where "OIDDigestAlgorithmSHA256 = [2, 16, 840, 1, 101, 3, 4, 2, 1]"
definition OIDDigestAlgorithmSHA384 :: oid where "OIDDigestAlgorithmSHA384 = [2, 16, 840, 1, 101, 3, 4, 2, 2]"
definition OIDDigestAlgorithmSHA512 :: oid where "OIDDigestAlgorithmSHA512 = [2, 16, 840, 1, 101, 3, 4, 2, 3]"
definition OIDDigestAlgorithmDSA :: oid where "OIDDigestAlgorithmDSA = [1, 2, 840, 10040, 4, 1]"
definition OIDDigestAlgorithmDSASHA1 :: oid where "OIDDigestAlgorithmDSASHA1 = [1, 2, 840, 10040, 4, 3]"
definition OIDDigestAlgorithmECDSASHA1 :: oid where "OIDDigestAlgorithmECDSASHA1 = [1, 2, 840, 10045, 4, 1]"
definition OIDDigestAlgorithmECDSASHA256 :: oid where "OIDDigestAlgorithmECDSASHA256 = [1, 2, 840, 10045, 4, 3, 2]"
definition OIDDigestAlgorithmECDSASHA384 :: oid where "OIDDigestAlgorithmECDSASHA384 = [1, 2, 840, 10045, 4, 3, 3]"
definition OIDDigestAlgorithmECDSASHA512 :: oid where "OIDDigestAlgorithmECDSASHA512 = [1, 2, 840, 10045, 4, 3, 4]"
definition OIDPublicKeyAlgorithmEC :: oid where "OIDPublicKeyAlgorithmEC = [1, 2, 840, 10045, 2, 1]"
definition OIDEncryptionAlgorithmRSA :: oid where "OIDEncryptionAlgorithmRSA = [1, 2, 840, 113549, 1, 1, 1]"
definition OIDEncryptionAlgorithmRSASHA1 :: oid where "OIDEncryptionAlgorithmRSASHA1 = [1, 2, 840, 113549, 1, 1, 5]"
definition OIDEncryptionAlgorithmRSASHA256 :: oid where "OIDEncryptionAlgorithmRSASHA256 = [1, 2, 840, 113549, 1, 1, 11]"
definition OIDEncryptionAlgorithmRSASHA384 :: oid where "OIDEncryptionAlgorithmRSASHA384 = [1, 2, 840, 113549, 1, 1, 12]"
definition OIDEncryptionAlgorithmRSASHA512 :: oid where "OIDEncryptionAlgorithmRSASHA512 = [1, 2, 840, 113549, 1, 1, 13]"
definition OIDEncryptionAlgorithmRSAPSS :: oid where "OIDEncryptionAlgorithmRSAPSS = [1, 2, 840, 113549, 1, 1, 10]"
definition OIDMaskGenerationFunctionMGF1 :: oid where "OIDMaskGenerationFunctionMGF1 = [1, 2, 840, 113549, 1, 1, 8]"
definition OIDEncryptionAlgorithmECDSAP256 :: oid where "OIDEncryptionAlgorithmECDSAP256 = [1, 2, 840, 10045, 3, 1, 7]"
definition OIDEncryptionAlgorithmECDSAP384 :: oid where "OIDEncryptionAlgorithmECDSAP384 = [1, 3, 132, 0, 34]"
definition OIDEncryptionAlgorithmECDSAP521 :: oid where "OIDEncryptionAlgorithmECDSAP521 = [1, 3, 132, 0, 35]"
definition OIDEncryptionAlgorithmEDDSA25519 :: oid where "OIDEncryptionAlgorithmEDDSA25519 = [1, 3, 101, 112]"
definition OIDSignatureAlgorithmMLDSA44 :: oid where "OIDSignatureAlgorithmMLDSA44 = [2, 16, 840, 1, 101, 3, 4, 3, 17]"
definition OIDSignatureAlgorithmMLDSA65 :: oid where "OIDSignatureAlgorithmMLDSA65 = [2, 16, 840, 1, 101, 3, 4, 3, 18]"
definition OIDSignatureAlgorithmMLDSA87 :: oid where "OIDSignatureAlgorithmMLDSA87 = [2, 16, 840, 1, 101, 3, 4, 3, 19]"
definition OIDEncryptionAlgorithmDESCBC :: oid where "OIDEncryptionAlgorithmDESCBC = [1, 3, 14, 3, 2, 7]"
definition OIDEncryptionAlgorithmDESEDE3CBC :: oid where "OIDEncryptionAlgorithmDESEDE3CBC = [1, 2, 840, 113549, 3, 7]"
definition OIDEncryptionAlgorithmAES256CBC :: oid where "OIDEncryptionAlgorithmAES256CBC = [2, 16, 840, 1, 101, 3, 4, 1, 42]"
definition OIDEncryptionAlgorithmAES128GCM :: oid where "OIDEncryptionAlgorithmAES128GCM = [2, 16, 840, 1, 101, 3, 4, 1, 6]"
definition OIDEncryptionAlgorithmAES128CBC :: oid where "OIDEncryptionAlgorithmAES128CBC = [2, 16, 840, 1, 101, 3, 4, 1, 2]"
definition OIDEncryptionAlgorithmAES256GCM :: oid where "OIDEncryptionAlgorithmAES256GCM = [2, 16, 840, 1, 101, 3, 4, 1, 46]"
definition OIDOtherRecipientInfoKEM :: oid where "OIDOtherRecipientInfoKEM = [1, 2, 840, 113549, 1, 9, 16, 13, 3]"
definition OIDKeyAlgorithmMLKEM512 :: oid where "OIDKeyAlgorithmMLKEM512 = [2, 16, 840, 1, 101, 3, 4, 4, 1]"
definition OIDKeyAlgorithmMLKEM768 :: oid where "OIDKeyAlgorithmMLKEM768 = [2, 16, 840, 1, 101, 3, 4, 4, 2]"
definition OIDKeyAlgorithmMLKEM1024 :: oid where "OIDKeyAlgorithmMLKEM1024 = [2, 16, 840, 1, 101, 3, 4, 4, 3]"
definition OIDKDFHKDFSHA256 :: oid where "OIDKDFHKDFSHA256 = [1, 2, 840, 113549, 1, 9, 16, 3, 28]"
definition OIDKeyWrapAES128 :: oid where "OIDKeyWrapAES128 = [2, 16, 840, 1, 101, 3, 4, 1, 5]"
definition OIDKeyWrapAES256 :: oid where "OIDKeyWrapAES256 = [2, 16, 840, 1, 101, 3, 4, 1, 45]"

text \<open>All of them are well formed, and no two of them are equal.\<close>

lemmas oid_defs =
  OIDData_def OIDSignedData_def OIDEnvelopedData_def
  OIDEncryptedData_def OIDAttributeContentType_def OIDAttributeMessageDigest_def
  OIDAttributeSigningTime_def OIDDigestAlgorithmSHA1_def OIDDigestAlgorithmSHA256_def
  OIDDigestAlgorithmSHA384_def OIDDigestAlgorithmSHA512_def OIDDigestAlgorithmDSA_def
  OIDDigestAlgorithmDSASHA1_def OIDDigestAlgorithmECDSASHA1_def OIDDigestAlgorithmECDSASHA256_def
  OIDDigestAlgorithmECDSASHA384_def OIDDigestAlgorithmECDSASHA512_def OIDPublicKeyAlgorithmEC_def
  OIDEncryptionAlgorithmRSA_def OIDEncryptionAlgorithmRSASHA1_def OIDEncryptionAlgorithmRSASHA256_def
  OIDEncryptionAlgorithmRSASHA384_def OIDEncryptionAlgorithmRSASHA512_def OIDEncryptionAlgorithmRSAPSS_def
  OIDMaskGenerationFunctionMGF1_def OIDEncryptionAlgorithmECDSAP256_def OIDEncryptionAlgorithmECDSAP384_def
  OIDEncryptionAlgorithmECDSAP521_def OIDEncryptionAlgorithmEDDSA25519_def OIDSignatureAlgorithmMLDSA44_def
  OIDSignatureAlgorithmMLDSA65_def OIDSignatureAlgorithmMLDSA87_def OIDEncryptionAlgorithmDESCBC_def
  OIDEncryptionAlgorithmDESEDE3CBC_def OIDEncryptionAlgorithmAES256CBC_def OIDEncryptionAlgorithmAES128GCM_def
  OIDEncryptionAlgorithmAES128CBC_def OIDEncryptionAlgorithmAES256GCM_def OIDOtherRecipientInfoKEM_def
  OIDKeyAlgorithmMLKEM512_def OIDKeyAlgorithmMLKEM768_def OIDKeyAlgorithmMLKEM1024_def
  OIDKDFHKDFSHA256_def OIDKeyWrapAES128_def OIDKeyWrapAES256_def

definition allOIDs :: "oid list" where
  "allOIDs = [OIDData, OIDSignedData, OIDEnvelopedData,
     OIDEncryptedData, OIDAttributeContentType, OIDAttributeMessageDigest,
     OIDAttributeSigningTime, OIDDigestAlgorithmSHA1, OIDDigestAlgorithmSHA256,
     OIDDigestAlgorithmSHA384, OIDDigestAlgorithmSHA512, OIDDigestAlgorithmDSA,
     OIDDigestAlgorithmDSASHA1, OIDDigestAlgorithmECDSASHA1, OIDDigestAlgorithmECDSASHA256,
     OIDDigestAlgorithmECDSASHA384, OIDDigestAlgorithmECDSASHA512, OIDPublicKeyAlgorithmEC,
     OIDEncryptionAlgorithmRSA, OIDEncryptionAlgorithmRSASHA1, OIDEncryptionAlgorithmRSASHA256,
     OIDEncryptionAlgorithmRSASHA384, OIDEncryptionAlgorithmRSASHA512, OIDEncryptionAlgorithmRSAPSS,
     OIDMaskGenerationFunctionMGF1, OIDEncryptionAlgorithmECDSAP256, OIDEncryptionAlgorithmECDSAP384,
     OIDEncryptionAlgorithmECDSAP521, OIDEncryptionAlgorithmEDDSA25519, OIDSignatureAlgorithmMLDSA44,
     OIDSignatureAlgorithmMLDSA65, OIDSignatureAlgorithmMLDSA87, OIDEncryptionAlgorithmDESCBC,
     OIDEncryptionAlgorithmDESEDE3CBC, OIDEncryptionAlgorithmAES256CBC, OIDEncryptionAlgorithmAES128GCM,
     OIDEncryptionAlgorithmAES128CBC, OIDEncryptionAlgorithmAES256GCM, OIDOtherRecipientInfoKEM,
     OIDKeyAlgorithmMLKEM512, OIDKeyAlgorithmMLKEM768, OIDKeyAlgorithmMLKEM1024,
     OIDKDFHKDFSHA256, OIDKeyWrapAES128, OIDKeyWrapAES256]"

lemma distinct_allOIDs: "distinct allOIDs"
  by (simp add: allOIDs_def oid_defs)

lemma distinct_rev_allOIDs: "distinct (rev allOIDs)"
  using distinct_allOIDs by simp

lemmas oid_neq [simp] =
  distinct_allOIDs [unfolded allOIDs_def, simplified]
  distinct_rev_allOIDs [unfolded allOIDs_def rev.simps append.simps, simplified]

lemma oid_ok_allOIDs: "\<forall>oid \<in> set allOIDs. oid_ok oid"
  by (simp add: allOIDs_def oid_defs)

lemmas oid_ok_simps [simp] = oid_ok_allOIDs [unfolded allOIDs_def, simplified]

section \<open>Algorithm identifiers\<close>

record AlgorithmIdentifier =
  algOID :: oid
  algParameters :: RawValue

definition algZero :: AlgorithmIdentifier where
  "algZero = \<lparr>algOID = [], algParameters = rawZero\<rparr>"

definition algOnly :: "oid \<Rightarrow> AlgorithmIdentifier" where
  "algOnly oid = \<lparr>algOID = oid, algParameters = rawZero\<rparr>"

definition algFields :: "AlgorithmIdentifier decoder" where
  "algFields bs = and_then (parseOID bs) (\<lambda>(oid, bs). and_then (parseRaw (Some rawZero) bs)
     (\<lambda>(params, bs). Inr (\<lparr>algOID = oid, algParameters = params\<rparr>, bs)))"

definition parseAlg :: "AlgorithmIdentifier decoder" where
  "parseAlg = parseStruct algFields None"

text \<open>The zero value of the optional parameters is left out.\<close>

definition marshalOptionalRaw :: "RawValue \<Rightarrow> bytes" where
  "marshalOptionalRaw rv = (if rv = rawZero then [] else marshalRaw rv)"

definition marshalAlg :: "AlgorithmIdentifier \<Rightarrow> bytes result" where
  "marshalAlg a = marshalSequence [marshalOID (algOID a), Inr (marshalOptionalRaw (algParameters a))]"

section \<open>Keys\<close>

datatype mldsaParameters = mldsa_MLDSA44 | mldsa_MLDSA65 | mldsa_MLDSA87 | mldsa_OtherParameters

datatype PublicKey =
    RSAPublicKey bytes
  | ECDSAPublicKey bytes
  | Ed25519PublicKey bytes
  | MLDSAPublicKey mldsaParameters bytes
  | EncapsulationKey768 bytes
  | EncapsulationKey1024 bytes
  | OtherPublicKey bytes

text \<open>
  The dynamic types of a key the package looks at. \<open>CryptoSigner\<close> is any other \<open>crypto.Signer\<close>
  with its public key.
\<close>

datatype PrivateKey =
    DSAPrivateKey bytes
  | RSAPrivateKey bytes bytes
  | CryptoSigner PublicKey bytes
  | DecapsulationKey768 bytes
  | DecapsulationKey1024 bytes
  | OtherPrivateKey bytes

text \<open>The type assertion \<open>key.(crypto.Signer)\<close> followed by \<open>Public()\<close>.\<close>

fun signerPublic :: "PrivateKey \<Rightarrow> PublicKey option" where
  "signerPublic (RSAPrivateKey _ pub) = Some (RSAPublicKey pub)"
| "signerPublic (CryptoSigner pub _) = Some pub"
| "signerPublic _ = None"

text \<open>\<open>crypto.Hash\<close> and \<open>x509.SignatureAlgorithm\<close>.\<close>

datatype Hash = SHA1 | SHA256 | SHA384 | SHA512

datatype SignatureAlgorithm =
    UnknownSignatureAlgorithm | MD2WithRSA | MD5WithRSA
  | SHA1WithRSA | SHA256WithRSA | SHA384WithRSA | SHA512WithRSA
  | DSAWithSHA1 | DSAWithSHA256
  | ECDSAWithSHA1 | ECDSAWithSHA256 | ECDSAWithSHA384 | ECDSAWithSHA512
  | SHA256WithRSAPSS | SHA384WithRSAPSS | SHA512WithRSAPSS
  | PureEd25519 | MLDSA44 | MLDSA65 | MLDSA87

end
