(* ===== verification/Structures.thy ===== *)
theory Structures
  imports Asn1Der Oids Crypto
begin

text \<open>
  The ASN.1 structures of \<open>pkcs7.go\<close>, \<open>encrypt.go\<close> and \<open>sign.go\<close> that carry content and
  recipients, each with its decoder (the struct tags), its encoder, and the law that the decoder
  takes back what the encoder wrote, up to the \<open>FullBytes\<close> a decoded \<open>RawValue\<close> holds.
\<close>

section \<open>The structures\<close>

record issuerAndSerial =
  IssuerName :: RawValue
  SerialNumber :: int

definition iasFields :: "issuerAndSerial decoder" where
  "iasFields bs = and_then (parseRaw None bs) (\<lambda>(issuer, bs). and_then (parseBig bs)
     (\<lambda>(serial, bs). Inr (\<lparr>IssuerName = issuer, SerialNumber = serial\<rparr>, bs)))"

definition parseIAS :: "issuerAndSerial decoder" where
  "parseIAS = parseStruct iasFields None"

definition marshalIAS :: "issuerAndSerial \<Rightarrow> bytes result" where
  "marshalIAS ias = marshalSequence [Inr (marshalRaw (IssuerName ias)), Inr (marshalInt (SerialNumber ias))]"

record contentInfo =
  ciContentType :: oid
  ciContent :: RawValue

definition contentInfoFields :: "contentInfo decoder" where
  "contentInfoFields bs = and_then (parseOID bs) (\<lambda>(ct, bs). and_then (parseExplicitRaw 0 (Some rawZero) bs)
     (\<lambda>(content, bs). Inr (\<lparr>ciContentType = ct, ciContent = content\<rparr>, bs)))"

definition parseContentInfo :: "contentInfo decoder" where
  "parseContentInfo = parseStruct contentInfoFields None"

definition marshalContentInfo :: "contentInfo \<Rightarrow> bytes result" where
  "marshalContentInfo ci = marshalSequence [marshalOID (ciContentType ci), Inr (marshalOptionalRaw (ciContent ci))]"

record encryptedContentInfo =
  eciContentType :: oid
  eciAlgorithm :: AlgorithmIdentifier
  eciContent :: RawValue

definition eciFields :: "encryptedContentInfo decoder" where
  "eciFields bs = and_then (parseOID bs) (\<lambda>(ct, bs). and_then (parseAlg bs) (\<lambda>(alg, bs).
     and_then (parseField (\<lambda>h. hClass h = 2 \<and> hTag h = 0) rawContent (Some rawZero) bs) (\<lambda>(content, bs).
       Inr (\<lparr>eciContentType = ct, eciAlgorithm = alg, eciContent = content\<rparr>, bs))))"

definition parseECI :: "encryptedContentInfo decoder" where
  "parseECI = parseStruct eciFields None"

definition marshalECI :: "encryptedContentInfo \<Rightarrow> bytes result" where
  "marshalECI eci = marshalSequence
     [marshalOID (eciContentType eci), marshalAlg (eciAlgorithm eci), Inr (marshalOptionalRaw (eciContent eci))]"

record encryptedData =
  edVersion :: int
  edContentInfo :: encryptedContentInfo

definition edFields :: "encryptedData decoder" where
  "edFields bs = and_then (parseInt bs) (\<lambda>(v, bs). and_then (parseECI bs) (\<lambda>(eci, bs).
     Inr (\<lparr>edVersion = v, edContentInfo = eci\<rparr>, bs)))"

definition parseED :: "encryptedData decoder" where
  "parseED = parseStruct edFields None"

definition marshalED :: "encryptedData \<Rightarrow> bytes result" where
  "marshalED ed = marshalSequence [Inr (marshalInt (edVersion ed)), marshalECI (edContentInfo ed)]"

record envelopedData =
  envVersion :: int
  envRecipientInfos :: "RawValue list"
  envContentInfo :: encryptedContentInfo

definition envFields :: "envelopedData decoder" where
  "envFields bs = and_then (parseInt bs) (\<lambda>(v, bs).
     and_then (parseSetOf (\<lambda>_. True) (parseRaw None) bs) (\<lambda>(rs, bs).
     and_then (parseECI bs) (\<lambda>(eci, bs).
       Inr (\<lparr>envVersion = v, envRecipientInfos = rs, envContentInfo = eci\<rparr>, bs))))"

definition parseEnv :: "envelopedData decoder" where
  "parseEnv = parseStruct envFields None"

definition marshalEnv :: "envelopedData \<Rightarrow> bytes result" where
  "marshalEnv env = marshalSequence
     [Inr (marshalInt (envVersion env)), marshalSetOf (map (\<lambda>rv. Inr (marshalRaw rv)) (envRecipientInfos env)),
      marshalECI (envContentInfo env)]"

record recipientInfo =
  riVersion :: int
  riIssuerAndSerialNumber :: issuerAndSerial
  riKeyEncryptionAlgorithm :: AlgorithmIdentifier
  riEncryptedKey :: bytes

definition riFields :: "recipientInfo decoder" where
  "riFields bs = and_then (parseInt bs) (\<lambda>(v, bs). and_then (parseIAS bs) (\<lambda>(ias, bs).
     and_then (parseAlg bs) (\<lambda>(alg, bs). and_then (parseOctets bs) (\<lambda>(key, bs).
       Inr (\<lparr>riVersion = v, riIssuerAndSerialNumber = ias, riKeyEncryptionAlgorithm = alg, riEncryptedKey = key\<rparr>, bs)))))"

definition parseRI :: "recipientInfo decoder" where
  "parseRI = parseStruct riFields None"

definition marshalRI :: "recipientInfo \<Rightarrow> bytes result" where
  "marshalRI ri = marshalSequence
     [Inr (marshalInt (riVersion ri)), marshalIAS (riIssuerAndSerialNumber ri),
      marshalAlg (riKeyEncryptionAlgorithm ri), Inr (marshalOctets (riEncryptedKey ri))]"

record aesGCMParameters =
  gcmNonce :: bytes
  gcmICVLen :: int

definition gcmFields :: "aesGCMParameters decoder" where
  "gcmFields bs = and_then (parseField (implicit 4 False) (\<lambda>_ inner _. Inr inner) None bs) (\<lambda>(nonce, bs).
     and_then (parseInt bs) (\<lambda>(icv, bs). Inr (\<lparr>gcmNonce = nonce, gcmICVLen = icv\<rparr>, bs)))"

definition parseGCM :: "aesGCMParameters decoder" where
  "parseGCM = parseStruct gcmFields None"

definition marshalGCM :: "aesGCMParameters \<Rightarrow> bytes result" where
  "marshalGCM p = marshalSequence [Inr (tlv 2 False 4 (gcmNonce p)), Inr (marshalInt (gcmICVLen p))]"

section \<open>Sequences of parts\<close>

lemma marshalSequence_InrE:
  assumes "marshalSequence rs = Inr bs"
  obtains ps where "rs = map Inr ps" "bs = tlv 0 True 16 (concat ps)"
  using assms by (auto simp: marshalSequence_def allResults_Inr_iff)

text \<open>No part of a value is longer than the value.\<close>

lemma length_part: "length (tlv cls compound tag (concat ps)) < n \<Longrightarrow> p \<in> set ps \<Longrightarrow> length p < n"
proof -
  assume "length (tlv cls compound tag (concat ps)) < n" "p \<in> set ps"
  moreover have "p \<in> set ps \<Longrightarrow> length p \<le> length (concat ps)" by (induction ps) auto
  moreover note length_body_le [of "concat ps" cls compound tag]
  ultimately show "length p < n" by linarith
qed

lemma length_body: "length (tlv cls compound tag body) < n \<Longrightarrow> length body < n"
  using length_body_le [of body cls compound tag] by linarith

lemma parseStruct_parts:
  assumes "length (tlv 0 True 16 body) < 2 ^ 31" "flds body = Inr (v, tail)"
  shows "parseStruct flds dflt (tlv 0 True 16 body @ rest) = Inr (v, rest)"
  using length_body [OF assms(1)] assms(2) by (rule parseStruct_tlv)

section \<open>Optional and raw parts\<close>

text \<open>What a raw value is after it has been written and read.\<close>

definition rawNorm :: "RawValue \<Rightarrow> RawValue" where
  "rawNorm rv = (if rv = rawZero then rawZero else rawElement (marshalRaw rv))"

definition raw_ok :: "RawValue \<Rightarrow> bool" where
  "raw_ok rv \<longleftrightarrow> rv = rawZero \<or> element (\<lambda>_. True) (marshalRaw rv)"

definition algNorm :: "AlgorithmIdentifier \<Rightarrow> AlgorithmIdentifier" where
  "algNorm a = \<lparr>algOID = algOID a, algParameters = rawNorm (algParameters a)\<rparr>"

lemma marshal_rawElement: "element P bs \<Longrightarrow> marshalRaw (rawElement bs) = bs"
  by (simp add: marshalRaw_def rawElement_def element_nonempty)

lemma parse_optional_raw:
  assumes "raw_ok rv"
  shows "parseRaw (Some rawZero) (marshalOptionalRaw rv) = Inr (rawNorm rv, [])"
proof (cases "rv = rawZero")
  case True
  then show ?thesis
    by (simp add: marshalOptionalRaw_def rawNorm_def parseRaw_def parseField_def orDefault_def)
next
  case False
  with assms parseRaw_element [of "marshalRaw rv" "Some rawZero" "[]"] show ?thesis
    by (simp add: marshalOptionalRaw_def rawNorm_def raw_ok_def)
qed

lemma alg_dec_enc:
  assumes "oid_ok (algOID a)" "raw_ok (algParameters a)" "marshalAlg a = Inr bs" "length bs < 2 ^ 31"
  shows "parseAlg (bs @ rest) = Inr (algNorm a, rest)"
proof -
  let ?p = "marshalOptionalRaw (algParameters a)"
  from assms(3) obtain ct where oid: "marshalOID (algOID a) = Inr ct" and bs: "bs = tlv 0 True 16 (ct @ ?p)"
    by (auto simp: marshalAlg_def marshalSequence_def)
  from length_body [OF assms(4) [unfolded bs]] have "length ct < 2 ^ 31" by simp
  with oid_dec_enc [OF assms(1) oid] parse_optional_raw [OF assms(2)]
  have "algFields (ct @ ?p) = Inr (algNorm a, [])" by (simp add: algFields_def algNorm_def)
  with assms(4) show ?thesis unfolding bs parseAlg_def by (intro parseStruct_parts)
qed

section \<open>The laws of the structures\<close>

definition iasNorm :: "issuerAndSerial \<Rightarrow> issuerAndSerial" where
  "iasNorm ias = \<lparr>IssuerName = rawElement (marshalRaw (IssuerName ias)), SerialNumber = SerialNumber ias\<rparr>"

lemma ias_dec_enc:
  assumes "element (\<lambda>_. True) (marshalRaw (IssuerName ias))" "marshalIAS ias = Inr bs" "length bs < 2 ^ 31"
  shows "parseIAS (bs @ rest) = Inr (iasNorm ias, rest)"
proof -
  let ?i = "marshalRaw (IssuerName ias)" and ?s = "marshalInt (SerialNumber ias)"
  from assms(2) have bs: "bs = tlv 0 True 16 (?i @ ?s)" by (simp add: marshalIAS_def marshalSequence_def)
  from length_body [OF assms(3) [unfolded bs]] have "length ?s < 2 ^ 31" by simp
  with parseRaw_element [OF assms(1)] have "iasFields (?i @ ?s) = Inr (iasNorm ias, [])"
    by (simp add: iasFields_def iasNorm_def big.dec_enc_exact)
  with assms(3) show ?thesis unfolding bs parseIAS_def by (intro parseStruct_parts)
qed

lemma parseExplicitRaw_tlv:
  assumes "body \<noteq> []" "length body < 2 ^ 31"
  shows "parseExplicitRaw 0 dflt (tlv 2 True 0 body @ rest) = Inr (rawElement (tlv 2 True 0 body), rest)"
proof -
  have "length (tlv 2 True 0 body) + length rest - (length body + length rest) + length body
      = length (tlv 2 True 0 body)"
    using length_body_le [of body 2 True 0] by simp
  then show ?thesis
    using assms parse_tlv [of 2 0 body True rest] element_tlv(2,3) [of 2 0 body True]
    by (simp add: parseExplicitRaw_def parseValue_def rawContent_def rawElement_def)
qed

definition contentInfo_ok :: "contentInfo \<Rightarrow> bool" where
  "contentInfo_ok ci \<longleftrightarrow> oid_ok (ciContentType ci) \<and>
     (ciContent ci = rawZero \<or> (\<exists>body. ciContent ci = rawOf 2 0 True body \<and> body \<noteq> []))"

definition contentInfoNorm :: "contentInfo \<Rightarrow> contentInfo" where
  "contentInfoNorm ci = \<lparr>ciContentType = ciContentType ci, ciContent = rawNorm (ciContent ci)\<rparr>"

lemma marshal_rawOf [simp]: "marshalRaw (rawOf cls tag compound body) = tlv cls compound tag body"
  by (simp add: marshalRaw_def rawOf_def)

lemma rawOf_nonzero [simp]: "cls \<noteq> 0 \<or> tag \<noteq> 0 \<or> compound \<or> body \<noteq> [] \<Longrightarrow> rawOf cls tag compound body \<noteq> rawZero"
  by (auto simp: rawOf_def rawZero_def)

lemma contentInfo_dec_enc:
  assumes "contentInfo_ok ci" "marshalContentInfo ci = Inr bs" "length bs < 2 ^ 31"
  shows "parseContentInfo (bs @ rest) = Inr (contentInfoNorm ci, rest)"
proof -
  let ?c = "marshalOptionalRaw (ciContent ci)"
  from assms(2) obtain ct where oid: "marshalOID (ciContentType ci) = Inr ct" and bs: "bs = tlv 0 True 16 (ct @ ?c)"
    by (auto simp: marshalContentInfo_def marshalSequence_def)
  from length_body [OF assms(3) [unfolded bs]] have len: "length ct < 2 ^ 31" "length ?c < 2 ^ 31" by simp_all
  have "parseExplicitRaw 0 (Some rawZero) ?c = Inr (rawNorm (ciContent ci), [])"
  proof (cases "ciContent ci = rawZero")
    case True
    then show ?thesis by (simp add: marshalOptionalRaw_def rawNorm_def parseExplicitRaw_def orDefault_def)
  next
    case False
    with assms(1) obtain body where body: "ciContent ci = rawOf 2 0 True body" "body \<noteq> []"
      by (auto simp: contentInfo_ok_def)
    then have c: "?c = tlv 2 True 0 body" by (simp add: marshalOptionalRaw_def)
    from length_body [OF len(2) [unfolded c]] have "length body < 2 ^ 31" .
    from parseExplicitRaw_tlv [OF body(2) this, of "Some rawZero" "[]"] show ?thesis
      using body by (simp add: marshalOptionalRaw_def rawNorm_def)
  qed
  with oid_dec_enc [OF _ oid len(1)] assms(1)
  have "contentInfoFields (ct @ ?c) = Inr (contentInfoNorm ci, [])"
    by (simp add: contentInfoFields_def contentInfoNorm_def contentInfo_ok_def)
  with assms(3) show ?thesis unfolding bs parseContentInfo_def by (intro parseStruct_parts)
qed

definition eci_ok :: "encryptedContentInfo \<Rightarrow> bool" where
  "eci_ok eci \<longleftrightarrow> oid_ok (eciContentType eci) \<and> oid_ok (algOID (eciAlgorithm eci)) \<and>
     raw_ok (algParameters (eciAlgorithm eci)) \<and>
     (eciContent eci = rawZero \<or> element (\<lambda>h. hClass h = 2 \<and> hTag h = 0) (marshalRaw (eciContent eci)))"

definition eciNorm :: "encryptedContentInfo \<Rightarrow> encryptedContentInfo" where
  "eciNorm eci = \<lparr>eciContentType = eciContentType eci, eciAlgorithm = algNorm (eciAlgorithm eci),
     eciContent = rawNorm (eciContent eci)\<rparr>"

lemma eci_dec_enc:
  assumes "eci_ok eci" "marshalECI eci = Inr bs" "length bs < 2 ^ 31"
  shows "parseECI (bs @ rest) = Inr (eciNorm eci, rest)"
proof -
  let ?c = "marshalOptionalRaw (eciContent eci)"
  let ?p = "parseField (\<lambda>h. hClass h = 2 \<and> hTag h = 0) rawContent (Some rawZero)"
  from assms(2) obtain ct a where oid: "marshalOID (eciContentType eci) = Inr ct"
    and alg: "marshalAlg (eciAlgorithm eci) = Inr a" and bs: "bs = tlv 0 True 16 (ct @ a @ ?c)"
    by (auto simp: marshalECI_def marshalSequence_def)
  from length_body [OF assms(3) [unfolded bs]] have len: "length ct < 2 ^ 31" "length a < 2 ^ 31" by simp_all
  have c: "?p ?c = Inr (rawNorm (eciContent eci), [])"
  proof (cases "eciContent eci = rawZero")
    case True
    then show ?thesis by (simp add: marshalOptionalRaw_def rawNorm_def parseField_def orDefault_def)
  next
    case False
    with assms(1) have "element (\<lambda>h. hClass h = 2 \<and> hTag h = 0) (marshalRaw (eciContent eci))"
      by (simp add: eci_ok_def)
    from parseField_element [OF this, of rawContent "Some rawZero" "[]"] False show ?thesis
      by (simp add: marshalOptionalRaw_def rawNorm_def rawContent_def rawElement_def)
  qed
  have "parseOID (ct @ a @ ?c) = Inr (eciContentType eci, a @ ?c)"
    using oid_dec_enc [OF _ oid len(1)] assms(1) by (simp add: eci_ok_def)
  moreover have "parseAlg (a @ ?c) = Inr (algNorm (eciAlgorithm eci), ?c)"
    using alg_dec_enc [OF _ _ alg len(2)] assms(1) by (simp add: eci_ok_def)
  ultimately have "eciFields (ct @ a @ ?c) = Inr (eciNorm eci, [])"
    using c by (simp add: eciFields_def eciNorm_def)
  with assms(3) show ?thesis unfolding bs parseECI_def by (intro parseStruct_parts)
qed

lemma ed_dec_enc:
  assumes "eci_ok (edContentInfo ed)" "-(2 ^ 63) \<le> edVersion ed" "edVersion ed < 2 ^ 63"
    and "marshalED ed = Inr bs" "length bs < 2 ^ 31"
  shows "parseED (bs @ rest) = Inr (\<lparr>edVersion = edVersion ed, edContentInfo = eciNorm (edContentInfo ed)\<rparr>, rest)"
proof -
  let ?v = "marshalInt (edVersion ed)"
  from assms(4) obtain e where eci: "marshalECI (edContentInfo ed) = Inr e" and bs: "bs = tlv 0 True 16 (?v @ e)"
    by (auto simp: marshalED_def marshalSequence_def)
  from length_body [OF assms(5) [unfolded bs]] have len: "length e < 2 ^ 31" by simp
  have "parseInt (?v @ e) = Inr (edVersion ed, e)" using assms(2,3) by (intro int64.dec_enc) simp
  with eci_dec_enc [OF assms(1) eci len, of "[]"]
  have "edFields (?v @ e) = Inr (\<lparr>edVersion = edVersion ed, edContentInfo = eciNorm (edContentInfo ed)\<rparr>, [])"
    by (simp add: edFields_def)
  with assms(5) show ?thesis unfolding bs parseED_def by (intro parseStruct_parts)
qed

lemma gcm_dec_enc:
  assumes "-(2 ^ 63) \<le> gcmICVLen p" "gcmICVLen p < 2 ^ 63" "marshalGCM p = Inr bs" "length bs < 2 ^ 31"
  shows "parseGCM (bs @ rest) = Inr (p, rest)"
proof -
  let ?n = "tlv 2 False 4 (gcmNonce p)" and ?i = "marshalInt (gcmICVLen p)"
  from assms(3) have bs: "bs = tlv 0 True 16 (?n @ ?i)" by (simp add: marshalGCM_def marshalSequence_def)
  from length_body [OF assms(4) [unfolded bs]] have "length ?n < 2 ^ 31" by simp
  from length_body [OF this] have "parseField (implicit 4 False) (\<lambda>_ inner _. Inr inner) None (?n @ ?i)
      = Inr (gcmNonce p, ?i)"
    by (simp add: parseField_tlv [OF _ _ _ refl] implicit_def)
  moreover have "parseInt ?i = Inr (gcmICVLen p, [])" using assms(1,2) by (intro int64.dec_enc_exact) simp
  ultimately have "gcmFields (?n @ ?i) = Inr (p, [])" by (simp add: gcmFields_def)
  with assms(4) show ?thesis unfolding bs parseGCM_def by (intro parseStruct_parts)
qed

definition ri_ok :: "recipientInfo \<Rightarrow> bool" where
  "ri_ok ri \<longleftrightarrow> -(2 ^ 63) \<le> riVersion ri \<and> riVersion ri < 2 ^ 63 \<and>
     element (\<lambda>_. True) (marshalRaw (IssuerName (riIssuerAndSerialNumber ri))) \<and>
     oid_ok (algOID (riKeyEncryptionAlgorithm ri)) \<and> raw_ok (algParameters (riKeyEncryptionAlgorithm ri))"

definition riNorm :: "recipientInfo \<Rightarrow> recipientInfo" where
  "riNorm ri = ri\<lparr>riIssuerAndSerialNumber := iasNorm (riIssuerAndSerialNumber ri),
     riKeyEncryptionAlgorithm := algNorm (riKeyEncryptionAlgorithm ri)\<rparr>"

lemma ri_dec_enc:
  assumes "ri_ok ri" "marshalRI ri = Inr bs" "length bs < 2 ^ 31"
  shows "parseRI (bs @ rest) = Inr (riNorm ri, rest)"
proof -
  let ?v = "marshalInt (riVersion ri)" and ?k = "marshalOctets (riEncryptedKey ri)"
  from assms(2) obtain i a where ias: "marshalIAS (riIssuerAndSerialNumber ri) = Inr i"
    and alg: "marshalAlg (riKeyEncryptionAlgorithm ri) = Inr a" and bs: "bs = tlv 0 True 16 (?v @ i @ a @ ?k)"
    by (auto simp: marshalRI_def marshalSequence_def)
  from length_body [OF assms(3) [unfolded bs]]
  have len: "length i < 2 ^ 31" "length a < 2 ^ 31" "length ?k < 2 ^ 31" by simp_all
  have key: "length (riEncryptedKey ri) < 2 ^ 31"
    using length_body [OF len(3) [unfolded marshalOctets_def]] .
  have "parseInt (?v @ i @ a @ ?k) = Inr (riVersion ri, i @ a @ ?k)"
    using assms(1) by (intro int64.dec_enc) (simp add: ri_ok_def)
  moreover have "parseIAS (i @ a @ ?k) = Inr (iasNorm (riIssuerAndSerialNumber ri), a @ ?k)"
    using ias_dec_enc [OF _ ias len(1)] assms(1) by (simp add: ri_ok_def)
  moreover have "parseAlg (a @ ?k) = Inr (algNorm (riKeyEncryptionAlgorithm ri), ?k)"
    using alg_dec_enc [OF _ _ alg len(2)] assms(1) by (simp add: ri_ok_def)
  moreover have "parseOctets ?k = Inr (riEncryptedKey ri, [])" using key by (rule octets.dec_enc_exact)
  ultimately have "riFields (?v @ i @ a @ ?k) = Inr (riNorm ri, [])" by (simp add: riFields_def riNorm_def)
  with assms(3) show ?thesis unfolding bs parseRI_def by (intro parseStruct_parts)
qed

definition env_ok :: "envelopedData \<Rightarrow> bool" where
  "env_ok env \<longleftrightarrow> -(2 ^ 63) \<le> envVersion env \<and> envVersion env < 2 ^ 63 \<and> eci_ok (envContentInfo env) \<and>
     (\<forall>rv \<in> set (envRecipientInfos env). element (\<lambda>_. True) (marshalRaw rv))"

definition envNorm :: "envelopedData \<Rightarrow> envelopedData" where
  "envNorm env = \<lparr>envVersion = envVersion env,
     envRecipientInfos = map (rawElement \<circ> marshalRaw) (sort_key marshalRaw (envRecipientInfos env)),
     envContentInfo = eciNorm (envContentInfo env)\<rparr>"

lemma env_dec_enc:
  assumes "env_ok env" "marshalEnv env = Inr bs" "length bs < 2 ^ 31"
  shows "parseEnv (bs @ rest) = Inr (envNorm env, rest)"
proof -
  let ?v = "marshalInt (envVersion env)" and ?rvs = "sort_key marshalRaw (envRecipientInfos env)"
  let ?r = "tlv 0 True 17 (concat (map marshalRaw ?rvs))"
  have r: "marshalSetOf (map (\<lambda>rv. Inr (marshalRaw rv)) (envRecipientInfos env)) = Inr ?r"
    by (simp add: marshalSetOf_def setBody_def sort_map)
  with assms(2) obtain e where eci: "marshalECI (envContentInfo env) = Inr e"
    and bs: "bs = tlv 0 True 16 (?v @ ?r @ e)"
    by (auto simp: marshalEnv_def marshalSequence_def)
  from length_body [OF assms(3) [unfolded bs]] have len: "length ?r < 2 ^ 31" "length e < 2 ^ 31" by simp_all
  have "parseInt (?v @ ?r @ e) = Inr (envVersion env, ?r @ e)"
    using assms(1) by (intro int64.dec_enc) (simp add: env_ok_def)
  moreover have "parseSetOf (\<lambda>_. True) (parseRaw None) (?r @ e) = Inr (map (rawElement \<circ> marshalRaw) ?rvs, e)"
  proof -
    have "sequenceOf (\<lambda>_. True) (parseRaw None) h (concat (map marshalRaw ?rvs)) full
        = Inr (map (rawElement \<circ> marshalRaw) ?rvs)" for h full
      using assms(1) by (intro sequenceOf_map) (simp_all add: env_ok_def parseRaw_element)
    with length_body [OF len(1)] show ?thesis
      by (simp add: parseSetOf_def parseField_tlv [OF _ _ _ refl] universal_def)
  qed
  moreover have "parseECI e = Inr (eciNorm (envContentInfo env), [])"
    using eci_dec_enc [OF _ eci len(2), of "[]"] assms(1) by (simp add: env_ok_def)
  ultimately have "envFields (?v @ ?r @ e) = Inr (envNorm env, [])" by (simp add: envFields_def envNorm_def)
  with assms(3) show ?thesis unfolding bs parseEnv_def by (intro parseStruct_parts)
qed

section \<open>DER\<close>

lemma length_marshalOID: "marshalOID oid = Inr bs \<Longrightarrow> \<exists>body. bs = tlv 0 False 6 body"
  by (auto simp: marshalOID_def)

lemma der_item_marshalOID [der_intros]:
  assumes "marshalOID oid = Inr bs" "length bs < 2 ^ 31"
  shows "der_item (Suc k) bs"
proof -
  from length_marshalOID [OF assms(1)] obtain body where bs: "bs = tlv 0 False 6 body" by blast
  from length_body [OF assms(2) [unfolded bs]] show ?thesis unfolding bs by (intro der_item_primitive) simp_all
qed

lemma der_item_marshalInt [der_intros]:
  assumes "length (marshalInt i) < 2 ^ 31"
  shows "der_item (Suc k) (marshalInt i)"
  using length_body [OF assms [unfolded marshalInt_def]]
  unfolding marshalInt_def by (intro der_item_primitive) simp_all

lemma der_item_marshalOctets [der_intros]:
  assumes "length (marshalOctets bs) < 2 ^ 31"
  shows "der_item (Suc k) (marshalOctets bs)"
  using length_body [OF assms [unfolded marshalOctets_def]]
  unfolding marshalOctets_def by (intro der_item_primitive) simp_all

lemma der_item_sequence [der_intros]:
  assumes "length (tlv 0 True 16 body) < 2 ^ 31" "der_items k body"
  shows "der_item (Suc k) (tlv 0 True 16 body)"
  using length_body [OF assms(1)] assms(2) by (intro der_item_constructed) simp_all

lemma der_item_sequence2:
  assumes "length (tlv 0 True 16 (p @ q)) < 2 ^ 31" "der_item k p" "der_items k q"
  shows "der_item (Suc k) (tlv 0 True 16 (p @ q))"
  using der_items_append [OF der_items_single [OF assms(2)] assms(3)] by (rule der_item_sequence [OF assms(1)])

lemma der_item_marshalSequence:
  assumes "marshalSequence rs = Inr bs" "length bs < 2 ^ 31"
    and "\<And>p. Inr p \<in> set rs \<Longrightarrow> length p < 2 ^ 31 \<Longrightarrow> der_items k p"
  shows "der_item (Suc k) bs"
proof -
  from assms(1) obtain ps where ps: "rs = map Inr ps" "bs = tlv 0 True 16 (concat ps)"
    by (rule marshalSequence_InrE)
  have "\<forall>p \<in> set ps. der_items k p"
    using assms(3) ps(1) length_part [OF assms(2) [unfolded ps(2)]] by auto
  then show ?thesis
    unfolding ps(2) by (intro der_item_sequence [OF assms(2) [unfolded ps(2)]] der_items_concat)
qed

lemma der_items_optional_raw [der_intros]:
  "rv = rawZero \<or> der_item k (marshalRaw rv) \<Longrightarrow> der_items k (marshalOptionalRaw rv)"
  by (auto simp: marshalOptionalRaw_def intro: der_intros)

lemma der_item_alg [der_intros]:
  assumes "marshalAlg a = Inr bs" "length bs < 2 ^ 31"
    and "algParameters a = rawZero \<or> der_item (Suc k) (marshalRaw (algParameters a))"
  shows "der_item (Suc (Suc k)) bs"
proof -
  from assms(1) obtain ct where oid: "marshalOID (algOID a) = Inr ct"
    and bs: "bs = tlv 0 True 16 (ct @ marshalOptionalRaw (algParameters a))"
    by (auto simp: marshalAlg_def marshalSequence_def)
  from length_body [OF assms(2) [unfolded bs]] have "length ct < 2 ^ 31" by simp
  from der_item_marshalOID [OF oid this] show ?thesis
    using assms(2) der_items_optional_raw [OF assms(3)] unfolding bs by (intro der_item_sequence2)
qed

lemma der_item_contentInfo:
  assumes "marshalContentInfo ci = Inr bs" "length bs < 2 ^ 31"
    and "ciContent ci = rawZero \<or> der_item (Suc k) (marshalRaw (ciContent ci))"
  shows "der_item (Suc (Suc k)) bs"
proof -
  from assms(1) obtain ct where oid: "marshalOID (ciContentType ci) = Inr ct"
    and bs: "bs = tlv 0 True 16 (ct @ marshalOptionalRaw (ciContent ci))"
    by (auto simp: marshalContentInfo_def marshalSequence_def)
  from length_body [OF assms(2) [unfolded bs]] have "length ct < 2 ^ 31" by simp
  from der_item_marshalOID [OF oid this] show ?thesis
    using assms(2) der_items_optional_raw [OF assms(3)] unfolding bs by (intro der_item_sequence2)
qed

end
