(* ===== verification/Certificates.thy ===== *)
theory Certificates
  imports Structures
begin

text \<open>
  Certificates as the package reads them (the fields of \<open>x509.Certificate\<close> it uses), the public
  key primitives it calls, and the matching of a certificate against an issuer and serial number.
\<close>

record Certificate =
  certRaw :: bytes
  RawIssuer :: bytes
  RawSubject :: bytes
  certSerialNumber :: int
  certPublicKey :: PublicKey
  RawSubjectPublicKeyInfo :: bytes
  certKeyUsage :: int
  SubjectKeyId :: bytes
  NotBefore :: int
  NotAfter :: int

definition isCertMatchForIssuerAndSerial :: "Certificate \<Rightarrow> issuerAndSerial \<Rightarrow> bool" where
  "isCertMatchForIssuerAndSerial cert ias \<longleftrightarrow>
     certSerialNumber cert = SerialNumber ias \<and> RawIssuer cert = rvFullBytes (IssuerName ias)"

definition cert2issuerAndSerial :: "Certificate \<Rightarrow> issuerAndSerial" where
  "cert2issuerAndSerial cert = \<lparr>IssuerName = rawFull (RawIssuer cert), SerialNumber = certSerialNumber cert\<rparr>"

fun getCertFromCertsByIssuerAndSerial :: "Certificate list \<Rightarrow> issuerAndSerial \<Rightarrow> Certificate option" where
  "getCertFromCertsByIssuerAndSerial [] ias = None"
| "getCertFromCertsByIssuerAndSerial (cert # certs) ias =
     (if isCertMatchForIssuerAndSerial cert ias then Some cert else getCertFromCertsByIssuerAndSerial certs ias)"

text \<open>
  The primitives of \<open>crypto/rsa\<close>, \<open>crypto/mlkem\<close> and \<open>crypto/hkdf\<close>, on encoded keys. Those that
  draw randomness take and return the random source.
\<close>

datatype mlkem = MLKEM768 | MLKEM1024

record pke =
  rsa_EncryptPKCS1v15 :: "bytes \<Rightarrow> bytes \<Rightarrow> entropy \<Rightarrow> (bytes \<times> entropy) result"
  rsa_DecryptPKCS1v15 :: "bytes \<Rightarrow> bytes \<Rightarrow> bytes result"
  mlkem_NewEncapsulationKey :: "mlkem \<Rightarrow> bytes \<Rightarrow> bytes result"
  mlkem_Encapsulate :: "mlkem \<Rightarrow> bytes \<Rightarrow> entropy \<Rightarrow> ((bytes \<times> bytes) \<times> entropy) result"
  mlkem_Decapsulate :: "mlkem \<Rightarrow> bytes \<Rightarrow> bytes \<Rightarrow> bytes result"
  hkdf_Key :: "bytes \<Rightarrow> bytes \<Rightarrow> int \<Rightarrow> bytes result"

text \<open>The documented behaviour: a private key decrypts what its public key encrypted.\<close>

definition rsa_pair :: "pke \<Rightarrow> bytes \<Rightarrow> bytes \<Rightarrow> bool" where
  "rsa_pair P pub priv \<longleftrightarrow>
     (\<forall>m ent c ent'. rsa_EncryptPKCS1v15 P pub m ent = Inr (c, ent') \<longrightarrow> rsa_DecryptPKCS1v15 P priv c = Inr m)"

definition kem_pair :: "pke \<Rightarrow> mlkem \<Rightarrow> bytes \<Rightarrow> bytes \<Rightarrow> bool" where
  "kem_pair P kem pub priv \<longleftrightarrow>
     (\<forall>s c ent ent'. mlkem_Encapsulate P kem pub ent = Inr ((s, c), ent') \<longrightarrow> mlkem_Decapsulate P kem priv c = Inr s)"

definition hkdf_ok :: "pke \<Rightarrow> bool" where
  "hkdf_ok P \<longleftrightarrow> (\<forall>secret info n key. hkdf_Key P secret info n = Inr key \<longrightarrow> int (length key) = n)"

text \<open>
  A toy instance for witnesses: RSA and the KEM add nothing to what they carry, and HKDF repeats
  a zero byte.
\<close>

definition toy_pke :: pke where
  "toy_pke = \<lparr>rsa_EncryptPKCS1v15 = \<lambda>_ m ent. Inr (m, ent), rsa_DecryptPKCS1v15 = \<lambda>_ c. Inr c,
     mlkem_NewEncapsulationKey = \<lambda>_ k. Inr k, mlkem_Encapsulate = \<lambda>_ _ ent. Inr (([7], [7]), ent),
     mlkem_Decapsulate = \<lambda>_ _ c. Inr c, hkdf_Key = \<lambda>_ _ n. Inr (replicate (nat n) 0)\<rparr>"

lemma toy_pke_ok: "rsa_pair toy_pke pub priv" "kem_pair toy_pke kem pub priv"
  by (simp_all add: rsa_pair_def kem_pair_def toy_pke_def)

section \<open>Matching\<close>

lemma getCert_Some:
  "getCertFromCertsByIssuerAndSerial certs ias = Some cert \<Longrightarrow>
     cert \<in> set certs \<and> isCertMatchForIssuerAndSerial cert ias"
  by (induction certs) (auto split: if_splits)

lemma getCert_None:
  "getCertFromCertsByIssuerAndSerial certs ias = None \<longleftrightarrow>
     (\<forall>cert \<in> set certs. \<not> isCertMatchForIssuerAndSerial cert ias)"
  by (induction certs) auto

text \<open>The name written for a certificate, read back, matches exactly that issuer and serial.\<close>

lemma iasNorm_cert:
  assumes "element (\<lambda>_. True) (RawIssuer cert)"
  shows "iasNorm (cert2issuerAndSerial cert) =
      \<lparr>IssuerName = rawElement (RawIssuer cert), SerialNumber = certSerialNumber cert\<rparr>"
    and "marshalRaw (IssuerName (cert2issuerAndSerial cert)) = RawIssuer cert"
  using element_nonempty [OF assms]
  by (simp_all add: iasNorm_def cert2issuerAndSerial_def marshalRaw_def rawFull_def)

lemma match_iasNorm:
  assumes "element (\<lambda>_. True) (RawIssuer cert)"
  shows "isCertMatchForIssuerAndSerial other (iasNorm (cert2issuerAndSerial cert)) \<longleftrightarrow>
    certSerialNumber other = certSerialNumber cert \<and> RawIssuer other = RawIssuer cert"
  using iasNorm_cert(1) [OF assms] by (simp add: isCertMatchForIssuerAndSerial_def rawElement_def)

end
