(* ===== verification/Padding.thy ===== *)
theory Padding
  imports Crypto
begin

unbundle bit_operations_syntax

text \<open>
  The block padding of \<open>encrypt.go\<close> (\<open>pad\<close>) and \<open>decrypt.go\<close> (\<open>unpad\<close>): the last byte
  says how many bytes were added, and every added byte holds that number.
\<close>

section \<open>The operations\<close>

definition pad :: "bytes \<Rightarrow> int \<Rightarrow> bytes result" where
  "pad data blocklen =
     (if blocklen < 1 then Inl (InvalidBlocklen blocklen)
      else let padlen = blocklen - (int (length data) mod blocklen);
               padlen = (if padlen = 0 then blocklen else padlen)
           in Inr (data @ replicate (nat padlen) (word_of_int padlen)))"

text \<open>One turn of the scan of the last block; the index is \<open>len(data)-1-i\<close>.\<close>

fun unpad_scan :: "bytes \<Rightarrow> int \<Rightarrow> nat list \<Rightarrow> int \<Rightarrow> int result" where
  "unpad_scan data padlen [] valid = Inr valid"
| "unpad_scan data padlen (i # is) valid =
     (if i < length data
      then and_then (byte_at data (length data - 1 - i)) (\<lambda>b.
        let inPadding = ConstantTimeLessOrEq (int i + 1) padlen;
            equal = ConstantTimeByteEq b (word_of_int padlen)
        in unpad_scan data padlen is (valid AND ConstantTimeSelect inPadding equal 1))
      else Inl PanicIndex)"

definition unpad :: "bytes \<Rightarrow> int \<Rightarrow> bytes result" where
  "unpad data blocklen =
     (if blocklen < 1 then Inl (InvalidBlocklen blocklen)
      else if int (length data) mod blocklen \<noteq> 0 \<or> length data = 0 then Inl InvalidPadding
      else and_then (byte_at data (length data - 1)) (\<lambda>last.
        let padlen = int (unat last);
            valid = ConstantTimeLessOrEq 1 padlen AND ConstantTimeLessOrEq padlen blocklen
        in and_then (unpad_scan data padlen [0..<nat blocklen] valid) (\<lambda>valid.
          if valid \<noteq> 1 then Inl InvalidPadding
          else go_slice data 0 (length data - nat padlen))))"

section \<open>The scan\<close>

lemma word_of_nat_unat_byte: "word_of_nat (unat b) = (b :: byte)"
  by (simp add: word_unat_eq_iff)

lemma one_and_bit: "v = 0 \<or> v = 1 \<Longrightarrow> w = 0 \<or> w = 1 \<Longrightarrow> (v :: int) AND w = (if v = 1 \<and> w = 1 then 1 else 0)"
  by (elim disjE; hypsubst; simp)

lemma unpad_scan_eq:
  assumes "\<forall>i \<in> set is. i < length data" "v = 0 \<or> v = 1"
  shows "unpad_scan data padlen is v =
    Inr (if v = 1 \<and> (\<forall>i \<in> set is. int i < padlen \<longrightarrow>
           data ! (length data - 1 - i) = word_of_int padlen) then 1 else 0)"
  using assms
proof (induction "is" arbitrary: v)
  case (Cons i "is")
  let ?ok = "int i < padlen \<longrightarrow> data ! (length data - 1 - i) = word_of_int padlen"
  have "v AND ConstantTimeSelect (ConstantTimeLessOrEq (int i + 1) padlen)
      (ConstantTimeByteEq (data ! (length data - 1 - i)) (word_of_int padlen)) 1
    = (if v = 1 \<and> ?ok then 1 else 0)"
    using Cons.prems(2)
    by (simp add: ConstantTimeLessOrEq_def ConstantTimeByteEq_def ConstantTimeSelect_def one_and_bit)
  then have "unpad_scan data padlen (i # is) v = unpad_scan data padlen is (if v = 1 \<and> ?ok then 1 else 0)"
  proof -
    assume eq: "v AND ConstantTimeSelect (ConstantTimeLessOrEq (int i + 1) padlen)
        (ConstantTimeByteEq (data ! (length data - 1 - i)) (word_of_int padlen)) 1
      = (if v = 1 \<and> ?ok then 1 else 0)"
    have "byte_at data (length data - 1 - i) = Inr (data ! (length data - 1 - i))" "i < length data"
      using Cons.prems(1) by auto
    then show ?thesis by (simp only: unpad_scan.simps Let_def if_True and_then_simps eq)
  qed
  also have "\<dots> = Inr (if v = 1 \<and> ?ok \<and> (\<forall>i \<in> set is. int i < padlen \<longrightarrow>
           data ! (length data - 1 - i) = word_of_int padlen) then 1 else 0)"
    using Cons.prems(1) by (subst Cons.IH) simp_all
  finally show ?case by simp
qed auto

text \<open>The last \<open>p\<close> bytes all hold \<open>x\<close>.\<close>

lemma suffix_replicate_iff:
  assumes "p \<le> length data"
  shows "(\<forall>i < p. data ! (length data - 1 - i) = x) \<longleftrightarrow>
    data = take (length data - p) data @ replicate p x" (is "?l \<longleftrightarrow> ?r")
proof
  assume ?l
  have "drop (length data - p) data = replicate p x"
  proof (rule nth_equalityI)
    fix i assume i: "i < length (drop (length data - p) data)"
    with assms have "p - 1 - i < p" by simp
    with \<open>?l\<close> have "data ! (length data - 1 - (p - 1 - i)) = x" by blast
    moreover from i assms have "length data - 1 - (p - 1 - i) = length data - p + i" by simp
    ultimately show "drop (length data - p) data ! i = replicate p x ! i" using i assms by simp
  qed (use assms in simp)
  then show ?r using append_take_drop_id [of "length data - p" data] by simp
next
  assume ?r
  show ?l
  proof (intro allI impI)
    fix i assume "i < p"
    with assms have "data ! (length data - 1 - i)
        = (take (length data - p) data @ replicate p x) ! (length data - 1 - i)"
      using \<open>?r\<close> by simp
    also have "\<not> length data - 1 - i < length (take (length data - p) data)"
      using \<open>i < p\<close> assms by simp
    then have "(take (length data - p) data @ replicate p x) ! (length data - 1 - i) = x"
      using \<open>i < p\<close> assms by (simp only: nth_append if_False) simp
    finally show "data ! (length data - 1 - i) = x" .
  qed
qed

lemma unpad_eq:
  assumes "1 \<le> blocklen" "data \<noteq> []" "int (length data) mod blocklen = 0"
  defines "p \<equiv> unat (last data)"
  shows "unpad data blocklen =
    (if 1 \<le> p \<and> int p \<le> blocklen \<and> data = take (length data - p) data @ replicate p (last data)
     then Inr (take (length data - p) data) else Inl InvalidPadding)"
proof -
  have fits: "nat blocklen \<le> length data"
    using assms(1-3) by (auto dest!: zdvd_imp_le simp flip: dvd_eq_mod_eq_0)
  have last: "data ! (length data - 1) = last data" using assms(2) by (simp add: last_conv_nth)
  have scan: "unpad_scan data (int p) [0..<nat blocklen] v = Inr (if v = 1 \<and>
      (\<forall>i < nat blocklen. i < p \<longrightarrow> data ! (length data - 1 - i) = last data) then 1 else 0)"
    if "v = 0 \<or> v = 1" for v
    using that fits by (subst unpad_scan_eq) (auto simp: p_def word_of_nat_unat_byte simp del: of_nat_unat)
  have run: "(\<forall>i < nat blocklen. i < p \<longrightarrow> data ! (length data - 1 - i) = last data) \<longleftrightarrow>
      data = take (length data - p) data @ replicate p (last data)" if "int p \<le> blocklen"
    using that fits suffix_replicate_iff [of p data "last data"] by auto
  have "unpad data blocklen = and_then (unpad_scan data (int p) [0..<nat blocklen]
      (if 1 \<le> p \<and> int p \<le> blocklen then 1 else 0)) (\<lambda>valid.
        if valid \<noteq> 1 then Inl InvalidPadding else go_slice data 0 (length data - p))"
    using assms(1-3) last
    unfolding p_def
    by (simp add: unpad_def Let_def ConstantTimeLessOrEq_def one_and_bit del: of_nat_unat cong: if_cong)
  then show ?thesis using run by (cases "1 \<le> p \<and> int p \<le> blocklen") (simp_all add: scan)
qed

lemma no_panic_unpad: "no_panic (unpad data blocklen)"
proof (cases "blocklen < 1 \<or> data = [] \<or> int (length data) mod blocklen \<noteq> 0")
  case True
  then show ?thesis by (auto simp: unpad_def)
next
  case False
  then show ?thesis by (simp add: unpad_eq)
qed

section \<open>The contract of a padding scheme\<close>

text \<open>
  What content encryption relies on: padding yields a non-empty whole number of blocks that
  starts with the data, and unpadding takes exactly the padding off again.
\<close>

locale padding_scheme =
  fixes padf :: "bytes \<Rightarrow> int \<Rightarrow> bytes result" and unpadf :: "bytes \<Rightarrow> int \<Rightarrow> bytes result"
    and maxlen :: int
  assumes pad_total: "1 \<le> b \<Longrightarrow> \<exists>p. padf d b = Inr p"
    and pad_blocks: "padf d b = Inr p \<Longrightarrow> int (length p) mod b = 0 \<and> length d < length p"
    and unpad_pad: "padf d b = Inr p \<Longrightarrow> b \<le> maxlen \<Longrightarrow> unpadf p b = Inr d"
begin

lemma pad_nonempty: "padf d b = Inr p \<Longrightarrow> p \<noteq> []"
  using pad_blocks by fastforce

lemma pad_inj:
  assumes "padf d b = Inr p" "padf d' b = Inr p" "b \<le> maxlen"
  shows "d = d'"
  using unpad_pad [OF assms(1,3)] unpad_pad [OF assms(2,3)] by simp

text \<open>
  Padding, an encryption of whole blocks, its inverse and unpadding give the data back.
\<close>

lemma through_cipher:
  assumes "1 \<le> b" "b \<le> maxlen"
    and inverse: "\<And>p. int (length p) mod b = 0 \<Longrightarrow> decr (encr p) = p"
  shows "\<exists>p. padf d b = Inr p \<and> unpadf (decr (encr p)) b = Inr d"
proof -
  from pad_total [OF assms(1)] obtain p where p: "padf d b = Inr p" by blast
  with pad_blocks have "int (length p) mod b = 0" by blast
  then have "decr (encr p) = p" by (rule inverse)
  with unpad_pad [OF p assms(2)] p show ?thesis by simp
qed

end

lemma pad_eq:
  assumes "1 \<le> b"
  obtains n where "1 \<le> n" "int n \<le> b" "int (length d + n) mod b = 0"
    "pad d b = Inr (d @ replicate n (word_of_nat n))"
proof
  let ?n = "nat (b - int (length d) mod b)"
  from assms have bounds: "0 \<le> int (length d) mod b" "int (length d) mod b < b" by simp_all
  then show "1 \<le> ?n" "int ?n \<le> b" by auto
  have "int (length d + ?n) = b * (int (length d) div b) + b"
    using bounds by (simp add: minus_mod_eq_mult_div)
  then show "int (length d + ?n) mod b = 0" by simp
  from bounds have "b - int (length d) mod b \<noteq> 0" by simp
  with bounds assms show "pad d b = Inr (d @ replicate ?n (word_of_nat ?n))"
    by (simp add: pad_def Let_def)
qed

interpretation pkcs7: padding_scheme pad unpad 255
proof unfold_locales
  fix d b
  assume "1 \<le> (b :: int)"
  then show "\<exists>p. pad d b = Inr p" by (auto elim: pad_eq [of b d])
next
  fix d b p
  assume p: "pad d b = Inr p"
  then have "1 \<le> b" by (auto simp: pad_def split: if_splits)
  with p show "int (length p) mod b = 0 \<and> length d < length p" by (auto elim!: pad_eq [of b d])
next
  fix d b p
  assume p: "pad d b = Inr p" and "b \<le> 255"
  then have "1 \<le> b" by (auto simp: pad_def split: if_splits)
  then obtain n where n: "1 \<le> n" "int n \<le> b" "int (length d + n) mod b = 0"
    "pad d b = Inr (d @ replicate n (word_of_nat n))" by (rule pad_eq)
  with p have p: "p = d @ replicate n (word_of_nat n)" by simp
  with n(1) have "last p = word_of_nat n" "p \<noteq> []" "length p = length d + n" by auto
  moreover have "unat (word_of_nat n :: byte) = n" using n(2) \<open>b \<le> 255\<close> by simp
  ultimately show "unpad p b = Inr d" using n(1-3) \<open>1 \<le> b\<close> by (simp add: unpad_eq p)
qed

section \<open>Properties\<close>

text \<open>
  C12: \<open>unpad\<close> undoes \<open>pad\<close> for every block length from 1 to 255, and what \<open>pad\<close> returns is
  longer than its input and a whole number of blocks.
\<close>

theorem pad_unpad:
  assumes "1 \<le> blocklen" and "blocklen \<le> 255"
  shows "\<exists>padded. pad data blocklen = Inr padded \<and> unpad padded blocklen = Inr data \<and>
    int (length padded) mod blocklen = 0 \<and> length data < length padded"
  using pkcs7.pad_total [OF assms(1)] pkcs7.unpad_pad [OF _ assms(2)] pkcs7.pad_blocks by meson

theorem pad_unpad_witness:
  "\<exists>padded. pad [1, 2, 3] 8 = Inr padded \<and> unpad padded 8 = Inr [1, 2, 3] \<and>
    int (length padded) mod 8 = 0 \<and> length [1, 2, 3 :: byte] < length padded"
  by (rule pad_unpad) simp_all

text \<open>
  C13: \<open>unpad\<close> returns data exactly when the input is a non-empty whole number of blocks that
  ends in \<open>p\<close> bytes of value \<open>p\<close> with \<open>1 \<le> p \<le> blocklen\<close>, and then returns the input without
  them; in every other case it returns an error.
\<close>

theorem unpad_exact:
  "unpad padded blocklen = Inr data \<longleftrightarrow>
     1 \<le> blocklen \<and> int (length padded) mod blocklen = 0 \<and>
     (\<exists>p \<in> {1..255}. int p \<le> blocklen \<and> padded = data @ replicate p (word_of_nat p))"
  (is "?l \<longleftrightarrow> ?r")
proof
  assume l: ?l
  then have blocks: "1 \<le> blocklen" "padded \<noteq> []" "int (length padded) mod blocklen = 0"
    by (auto simp: unpad_def split: if_splits)
  let ?p = "unat (last padded)"
  from l unpad_eq [OF blocks] have "1 \<le> ?p" "int ?p \<le> blocklen" "data = take (length padded - ?p) padded"
    "padded = take (length padded - ?p) padded @ replicate ?p (last padded)"
    by (auto split: if_splits)
  moreover have "?p \<le> 255" using unat_byte_less [of "last padded"] by linarith
  ultimately show ?r using blocks by (intro conjI bexI [of _ ?p]) auto
next
  assume ?r
  then obtain p where p: "1 \<le> p" "p \<le> 255" "int p \<le> blocklen" "padded = data @ replicate p (word_of_nat p)"
    and blocks: "1 \<le> blocklen" "int (length padded) mod blocklen = 0" by auto
  from p(1,2,4) have "unat (last padded) = p" "last padded = word_of_nat p" "padded \<noteq> []" by auto
  with p blocks show ?l by (simp add: unpad_eq)
qed

theorem unpad_exact_witness:
  "unpad [1, 2, 3, 5, 5, 5, 5, 5] 8 = Inr [1, 2, 3] \<and> unpad [1, 2, 3, 5, 5, 4, 5, 5] 8 \<noteq> Inr [1, 2, 3]"
proof
  show "unpad [1, 2, 3, 5, 5, 5, 5, 5] 8 = Inr [1, 2, 3]"
    by (subst unpad_exact) (auto intro!: bexI [of _ 5] simp: eval_nat_numeral)
  show "unpad [1, 2, 3, 5, 5, 4, 5, 5] 8 \<noteq> Inr [1, 2, 3]" by code_simp
qed



end
