(* ===== verification/Cbc.thy ===== *)
theory Cbc
  imports Crypto
begin

unbundle bit_operations_syntax

text \<open>
  CBC mode of \<open>crypto/cipher\<close>: \<open>NewCBCEncrypter\<close>, \<open>NewCBCDecrypter\<close> and \<open>CryptBlocks\<close>, which panic
  when the initialisation vector is not one block or the input is not whole blocks.
\<close>

definition xor_bytes :: "bytes \<Rightarrow> bytes \<Rightarrow> bytes" where
  "xor_bytes a b = map2 (XOR) a b"

function cbc_encrypt_blocks :: "block_cipher \<Rightarrow> bytes \<Rightarrow> bytes \<Rightarrow> bytes" where
  "cbc_encrypt_blocks block iv src =
     (let n = BlockSize block in
      if n = 0 \<or> length src < n then []
      else let c = Encrypt block (xor_bytes iv (take n src)) in c @ cbc_encrypt_blocks block c (drop n src))"
  by pat_completeness auto
termination by (relation "measure (\<lambda>(_, _, src). length src)") auto

function cbc_decrypt_blocks :: "block_cipher \<Rightarrow> bytes \<Rightarrow> bytes \<Rightarrow> bytes" where
  "cbc_decrypt_blocks block iv src =
     (let n = BlockSize block in
      if n = 0 \<or> length src < n then []
      else xor_bytes iv (Decrypt block (take n src)) @ cbc_decrypt_blocks block (take n src) (drop n src))"
  by pat_completeness auto
termination by (relation "measure (\<lambda>(_, _, src). length src)") auto

declare cbc_encrypt_blocks.simps [simp del] cbc_decrypt_blocks.simps [simp del]

definition cbc_encrypt :: "block_cipher \<Rightarrow> bytes \<Rightarrow> bytes \<Rightarrow> bytes result" where
  "cbc_encrypt block iv src =
     (if length iv \<noteq> BlockSize block \<or> length src mod BlockSize block \<noteq> 0 then Inl PanicCipher
      else Inr (cbc_encrypt_blocks block iv src))"

definition cbc_decrypt :: "block_cipher \<Rightarrow> bytes \<Rightarrow> bytes \<Rightarrow> bytes result" where
  "cbc_decrypt block iv src =
     (if length iv \<noteq> BlockSize block \<or> length src mod BlockSize block \<noteq> 0 then Inl PanicCipher
      else Inr (cbc_decrypt_blocks block iv src))"

lemma length_xor_bytes [simp]: "length (xor_bytes a b) = min (length a) (length b)"
  by (simp add: xor_bytes_def)

lemma xor_bytes_cancel: "length a = length b \<Longrightarrow> xor_bytes a (xor_bytes a b) = b"
  by (induction a b rule: list_induct2) (simp_all add: xor_bytes_def flip: xor.assoc)

lemma blocks_step: "n dvd length src \<Longrightarrow> src \<noteq> [] \<Longrightarrow> n \<le> length src \<and> n dvd length (drop n src)"
  by (auto dest: dvd_imp_le intro: dvd_diff_nat)

lemma cbc_roundtrip_blocks:
  assumes "cipher_ok block" "length iv = BlockSize block" "BlockSize block dvd length src"
  shows "cbc_decrypt_blocks block iv (cbc_encrypt_blocks block iv src) = src \<and>
    length (cbc_encrypt_blocks block iv src) = length src"
  using assms(2,3)
proof (induction "length src" arbitrary: iv src rule: less_induct)
  case less
  let ?n = "BlockSize block"
  have n: "0 < ?n" using assms(1) by (simp add: cipher_ok_def)
  show ?case
  proof (cases "src = []")
    case True
    with n show ?thesis by (simp add: cbc_encrypt_blocks.simps cbc_decrypt_blocks.simps)
  next
    case False
    from blocks_step [OF less.prems(2) False] have step: "?n \<le> length src" "?n dvd length (drop ?n src)" by simp_all
    let ?x = "xor_bytes iv (take ?n src)"
    let ?c = "Encrypt block ?x"
    have x: "length ?x = ?n" using less.prems(1) step(1) by simp
    with assms(1) have c: "length ?c = ?n" "Decrypt block ?c = ?x" by (simp_all add: cipher_ok_def)
    have IH: "cbc_decrypt_blocks block ?c (cbc_encrypt_blocks block ?c (drop ?n src)) = drop ?n src"
      "length (cbc_encrypt_blocks block ?c (drop ?n src)) = length (drop ?n src)"
      using less.hyps [of "drop ?n src" ?c] False n c(1) step(2) by simp_all
    have enc: "cbc_encrypt_blocks block iv src = ?c @ cbc_encrypt_blocks block ?c (drop ?n src)"
      using n step(1) by (subst cbc_encrypt_blocks.simps) (simp add: Let_def)
    have "cbc_decrypt_blocks block iv (?c @ cbc_encrypt_blocks block ?c (drop ?n src))
        = xor_bytes iv ?x @ drop ?n src"
      using n c IH by (subst cbc_decrypt_blocks.simps) (simp add: Let_def)
    also have "xor_bytes iv ?x = take ?n src" using less.prems(1) step(1) by (intro xor_bytes_cancel) simp
    finally show ?thesis using enc IH(2) c(1) step(1) by simp
  qed
qed

lemma length_cbc_decrypt_blocks:
  assumes "cipher_ok block" "length iv = BlockSize block" "BlockSize block dvd length src"
  shows "length (cbc_decrypt_blocks block iv src) = length src"
  using assms(2,3)
proof (induction "length src" arbitrary: iv src rule: less_induct)
  case less
  let ?n = "BlockSize block"
  have n: "0 < ?n" using assms(1) by (simp add: cipher_ok_def)
  show ?case
  proof (cases "src = []")
    case False
    from blocks_step [OF less.prems(2) False] have step: "?n \<le> length src" "?n dvd length (drop ?n src)" by simp_all
    with n False have "length (cbc_decrypt_blocks block (take ?n src) (drop ?n src)) = length (drop ?n src)"
      by (intro less.hyps) simp_all
    moreover have "length (Decrypt block (take ?n src)) = ?n" using assms(1) step(1) by (simp add: cipher_ok_def)
    ultimately show ?thesis using n step(1) less.prems(1)
      by (subst cbc_decrypt_blocks.simps) (simp add: Let_def)
  qed (use n in \<open>simp add: cbc_decrypt_blocks.simps Let_def\<close>)
qed

end
