(* ===== verification/ContentEncryption.thy ===== *)
theory ContentEncryption
  imports Structures Padding Cbc
begin

text \<open>
  Content encryption: \<open>encryptDESCBC\<close>, \<open>encryptAESCBC\<close>, \<open>encryptAESGCM\<close> of \<open>encrypt.go\<close> and
  \<open>encryptedContentInfo.decrypt\<close> of \<open>decrypt.go\<close>. The package variable
  \<open>ContentEncryptionAlgorithm\<close> is an argument, and so is the random source.
\<close>

section \<open>Encryption\<close>

definition EncryptionAlgorithmDESCBC :: int where "EncryptionAlgorithmDESCBC = 0"
definition EncryptionAlgorithmAES128CBC :: int where "EncryptionAlgorithmAES128CBC = 1"
definition EncryptionAlgorithmAES256CBC :: int where "EncryptionAlgorithmAES256CBC = 2"
definition EncryptionAlgorithmAES128GCM :: int where "EncryptionAlgorithmAES128GCM = 3"
definition EncryptionAlgorithmAES256GCM :: int where "EncryptionAlgorithmAES256GCM = 4"

lemmas cea_defs = EncryptionAlgorithmDESCBC_def EncryptionAlgorithmAES128CBC_def
  EncryptionAlgorithmAES256CBC_def EncryptionAlgorithmAES128GCM_def EncryptionAlgorithmAES256GCM_def

definition nonceSize :: nat where "nonceSize = 12"

definition gcmOverhead :: int where "gcmOverhead = 16"

definition marshalEncryptedContent :: "bytes \<Rightarrow> RawValue" where
  "marshalEncryptedContent content = rawOf 2 0 True (marshalOctets content)"

text \<open>A key that is not given (\<open>nil\<close>) is drawn from the random source.\<close>

definition keyOrRandom :: "bytes option \<Rightarrow> nat \<Rightarrow> entropy \<Rightarrow> (bytes \<times> entropy) result" where
  "keyOrRandom key keyLen ent = (case key of None \<Rightarrow> rand_Read keyLen ent | Some k \<Rightarrow> Inr (k, ent))"

definition encryptAESGCM ::
  "crypto \<Rightarrow> int \<Rightarrow> bytes \<Rightarrow> bytes option \<Rightarrow> entropy \<Rightarrow> ((bytes \<times> encryptedContentInfo) \<times> entropy) result" where
  "encryptAESGCM C cea content key ent =
     and_then (if cea = EncryptionAlgorithmAES128GCM then Inr (16, OIDEncryptionAlgorithmAES128GCM)
               else if cea = EncryptionAlgorithmAES256GCM then Inr (32, OIDEncryptionAlgorithmAES256GCM)
               else Inl (InvalidContentEncryptionAlgorithm cea)) (\<lambda>(keyLen, algID).
     and_then (keyOrRandom key keyLen ent) (\<lambda>(key, ent).
     and_then (rand_Read nonceSize ent) (\<lambda>(nonce, ent).
     and_then (aes_NewCipher C key) (\<lambda>block.
     let ciphertext = gcm_seal C block nonce content in
     and_then (marshalGCM \<lparr>gcmNonce = nonce, gcmICVLen = gcmOverhead\<rparr>) (\<lambda>paramBytes.
       Inr ((key, \<lparr>eciContentType = OIDData,
           eciAlgorithm = \<lparr>algOID = algID, algParameters = rawOf 0 16 False paramBytes\<rparr>,
           eciContent = marshalEncryptedContent ciphertext\<rparr>), ent))))))"

text \<open>The CBC part the two CBC functions share after the key is chosen.\<close>

definition encryptDESCBC ::
  "crypto \<Rightarrow> bytes \<Rightarrow> bytes option \<Rightarrow> entropy \<Rightarrow> ((bytes \<times> encryptedContentInfo) \<times> entropy) result" where
  "encryptDESCBC C content key ent =
     and_then (keyOrRandom key 8 ent) (\<lambda>(key, ent).
     and_then (rand_Read 8 ent) (\<lambda>(iv, ent).
     and_then (des_NewCipher C key) (\<lambda>block.
     and_then (pad content (int (BlockSize block))) (\<lambda>plaintext.
     and_then (cbc_encrypt block iv plaintext) (\<lambda>cyphertext.
       Inr ((key, \<lparr>eciContentType = OIDData,
           eciAlgorithm = \<lparr>algOID = OIDEncryptionAlgorithmDESCBC, algParameters = rawOf 0 4 False iv\<rparr>,
           eciContent = marshalEncryptedContent cyphertext\<rparr>), ent))))))"

definition encryptAESCBC ::
  "crypto \<Rightarrow> int \<Rightarrow> bytes \<Rightarrow> bytes option \<Rightarrow> entropy \<Rightarrow> ((bytes \<times> encryptedContentInfo) \<times> entropy) result" where
  "encryptAESCBC C cea content key ent =
     and_then (if cea = EncryptionAlgorithmAES128CBC then Inr (16, OIDEncryptionAlgorithmAES128CBC)
               else if cea = EncryptionAlgorithmAES256CBC then Inr (32, OIDEncryptionAlgorithmAES256CBC)
               else Inl (InvalidContentEncryptionAlgorithm cea)) (\<lambda>(keyLen, algID).
     and_then (keyOrRandom key keyLen ent) (\<lambda>(key, ent).
     and_then (rand_Read 16 ent) (\<lambda>(iv, ent).
     and_then (aes_NewCipher C key) (\<lambda>block.
     and_then (pad content (int (BlockSize block))) (\<lambda>plaintext.
     and_then (cbc_encrypt block iv plaintext) (\<lambda>cyphertext.
       Inr ((key, \<lparr>eciContentType = OIDData,
           eciAlgorithm = \<lparr>algOID = algID, algParameters = rawOf 0 4 False iv\<rparr>,
           eciContent = marshalEncryptedContent cyphertext\<rparr>), ent)))))))"

section \<open>Decryption\<close>

lemma parseOctets_shorter:
  assumes "parseOctets bs = Inr (part, rest)"
  shows "length rest < length bs"
proof -
  from assms obtain h r where "parseTagAndLength bs = Inr (h, r)" "rest = drop (hLen h) r"
    by (auto simp: parseOctets_def parseField_def parseValue_def orDefault_def split: if_splits)
  with parseTagAndLength_shorter [of bs h r] show ?thesis by simp
qed

text \<open>
  The loop over the OCTET STRINGs inside a constructed value: \<open>asn1.Unmarshal\<close> returns no rest
  when it fails, which ends the loop, and its error is dropped.
\<close>

function octetParts :: "bytes \<Rightarrow> bytes" where
  "octetParts cypherbytes = (case parseOctets cypherbytes of Inl _ \<Rightarrow> []
     | Inr (part, rest) \<Rightarrow> part @ octetParts rest)"
  by pat_completeness auto
termination by (relation "measure length") (auto dest: parseOctets_shorter)

declare octetParts.simps [simp del]

definition contentCipher :: "crypto \<Rightarrow> oid \<Rightarrow> bytes \<Rightarrow> block_cipher result" where
  "contentCipher C alg key =
     (if alg = OIDEncryptionAlgorithmDESCBC then des_NewCipher C key
      else if alg = OIDEncryptionAlgorithmDESEDE3CBC then des_NewTripleDESCipher C key
      else aes_NewCipher C key)"

definition eci_decrypt :: "crypto \<Rightarrow> encryptedContentInfo \<Rightarrow> bytes \<Rightarrow> bytes result" where
  "eci_decrypt C eci key =
     (let alg = algOID (eciAlgorithm eci) in
      if alg \<notin> {OIDEncryptionAlgorithmDESCBC, OIDEncryptionAlgorithmDESEDE3CBC, OIDEncryptionAlgorithmAES256CBC,
          OIDEncryptionAlgorithmAES128CBC, OIDEncryptionAlgorithmAES128GCM, OIDEncryptionAlgorithmAES256GCM}
      then Inl ErrUnsupportedAlgorithm
      else let cyphertext = (if rvIsCompound (eciContent eci) then octetParts (rvBytes (eciContent eci))
                             else rvBytes (eciContent eci)) in
      and_then (contentCipher C alg key) (\<lambda>block.
      if alg = OIDEncryptionAlgorithmAES128GCM \<or> alg = OIDEncryptionAlgorithmAES256GCM
      then and_then (parseGCM (rvBytes (algParameters (eciAlgorithm eci)))) (\<lambda>(params, _).
        if length (gcmNonce params) \<noteq> nonceSize then Inl AlgorithmParametersIncorrect
        else if gcmICVLen params \<noteq> gcmOverhead then Inl AlgorithmParametersIncorrect
        else gcm_open C block (gcmNonce params) cyphertext)
      else let iv = rvBytes (algParameters (eciAlgorithm eci)) in
        if length iv \<noteq> BlockSize block then Inl AlgorithmParametersMalformed
        else if length cyphertext = 0 \<or> length cyphertext mod BlockSize block \<noteq> 0 then Inl InvalidPadding
        else and_then (cbc_decrypt block iv cyphertext) (\<lambda>plaintext.
          unpad plaintext (int (BlockSize block)))))"

section \<open>The content ciphers\<close>

lemma octetParts_octets:
  assumes "length bs < 2 ^ 31"
  shows "octetParts (marshalOctets bs) = bs"
proof -
  have "parseOctets [] = Inl (Asn1Error SequenceTruncated)"
    by (simp add: parseOctets_def parseField_def orDefault_def)
  then have "octetParts [] = []" by (simp add: octetParts.simps)
  with octets.dec_enc_exact [OF assms] show ?thesis by (simp add: octetParts.simps)
qed

text \<open>Octet strings one after the other are joined.\<close>

lemma octetParts_concat:
  assumes "\<forall>p \<in> set ps. length p < 2 ^ 31"
  shows "octetParts (concat (map marshalOctets ps) @ rest) = concat ps @ octetParts rest"
  using assms
proof (induction ps)
  case (Cons p ps)
  then have "parseOctets (marshalOctets p @ concat (map marshalOctets ps) @ rest)
      = Inr (p, concat (map marshalOctets ps) @ rest)"
    by (intro octets.dec_enc) simp
  with Cons show ?case by (subst octetParts.simps) simp
qed simp

lemma pad_cbc:
  assumes "cipher_ok block" "BlockSize block \<le> 255" "length iv = BlockSize block"
    and "pad content (int (BlockSize block)) = Inr plaintext" "cbc_encrypt block iv plaintext = Inr c"
  shows "length c \<noteq> 0 \<and> length c mod BlockSize block = 0 \<and>
    (\<exists>p. cbc_decrypt block iv c = Inr p \<and> unpad p (int (BlockSize block)) = Inr content)"
proof -
  from pkcs7.pad_blocks [OF assms(4)]
  have blocks: "BlockSize block dvd length plaintext" "plaintext \<noteq> []"
    by (auto simp flip: of_nat_mod)
  from assms(5) have c: "c = cbc_encrypt_blocks block iv plaintext" by (auto simp: cbc_encrypt_def split: if_splits)
  from cbc_roundtrip_blocks [OF assms(1,3) blocks(1)] blocks assms(3) c
  have "cbc_decrypt block iv c = Inr plaintext" "length c = length plaintext" by (auto simp: cbc_decrypt_def)
  with pkcs7.unpad_pad [OF assms(4)] assms(2) blocks show ?thesis by auto
qed

text \<open>The shape of every \<open>encryptedContentInfo\<close> the package writes.\<close>

definition sealedECI :: "oid \<Rightarrow> nat \<Rightarrow> bytes \<Rightarrow> bytes \<Rightarrow> encryptedContentInfo" where
  "sealedECI algID tag params c =
     \<lparr>eciContentType = OIDData, eciAlgorithm = \<lparr>algOID = algID, algParameters = rawOf 0 tag False params\<rparr>,
      eciContent = marshalEncryptedContent c\<rparr>"

lemma sealedECI_marshal:
  assumes "oid_ok algID" "0 < tag" "tag < 31" "marshalECI (sealedECI algID tag params c) = Inr bs" "length bs < 2 ^ 31"
  shows "eci_ok (sealedECI algID tag params c)" "der_item 3 bs" "length params < 2 ^ 31" "length c < 2 ^ 31"
    "rvBytes (algParameters (eciAlgorithm (eciNorm (sealedECI algID tag params c)))) = params"
    "rvIsCompound (eciContent (eciNorm (sealedECI algID tag params c)))"
    "rvBytes (eciContent (eciNorm (sealedECI algID tag params c))) = marshalOctets c"
proof -
  let ?p = "tlv 0 False tag params" and ?c = "tlv 2 True 0 (marshalOctets c)"
  have opt: "marshalOptionalRaw (rawOf 0 tag False params) = ?p" "marshalOptionalRaw (marshalEncryptedContent c) = ?c"
    using assms(2) by (simp_all add: marshalOptionalRaw_def marshalEncryptedContent_def)
  from assms(4) obtain ct a where ct: "marshalOID OIDData = Inr ct" and a: "marshalOID algID = Inr a"
    and bs: "bs = tlv 0 True 16 (ct @ tlv 0 True 16 (a @ ?p) @ ?c)"
    by (auto simp: sealedECI_def marshalECI_def marshalAlg_def marshalSequence_def opt)
  note len = length_body [OF assms(5) [unfolded bs]]
  then have len1: "length ct < 2 ^ 31" "length (tlv 0 True 16 (a @ ?p)) < 2 ^ 31" "length ?c < 2 ^ 31" by simp_all
  from length_body [OF len1(2)] have len2: "length a < 2 ^ 31" "length ?p < 2 ^ 31" by simp_all
  from length_body [OF len1(3)] have len3: "length (marshalOctets c) < 2 ^ 31" .
  show p: "length params < 2 ^ 31" by (rule length_body [OF len2(2)])
  show "length c < 2 ^ 31" using length_body [OF len3 [unfolded marshalOctets_def]] .
  have el: "element (\<lambda>_. True) ?p" "element (\<lambda>h. hClass h = 2 \<and> hTag h = 0) ?c"
    using p len3 assms(3) by (simp_all add: element_tlv)
  with assms(1,2) show "eci_ok (sealedECI algID tag params c)"
    by (simp add: eci_ok_def sealedECI_def raw_ok_def marshalEncryptedContent_def)
  have "der_item (Suc (Suc (Suc 0))) bs"
    unfolding bs
  proof (rule der_item_sequence2 [OF assms(5) [unfolded bs]])
    show "der_item (Suc (Suc 0)) ct" using ct len1(1) by (rule der_item_marshalOID)
    have "der_item (Suc 0) a" "der_item (Suc 0) ?p"
      using der_item_marshalOID [OF a len2(1)] p assms(3) by (simp_all add: der_item_primitive)
    then have alg: "der_item (Suc (Suc 0)) (tlv 0 True 16 (a @ ?p))"
      by (intro der_item_sequence2 [OF len1(2)] der_items_single)
    have "der_items (Suc 0) (marshalOctets c)" using len3 by (intro der_items_single der_item_marshalOctets)
    with len3 have "der_item (Suc (Suc 0)) ?c" by (intro der_item_constructed) simp_all
    with alg show "der_items (Suc (Suc 0)) (tlv 0 True 16 (a @ ?p) @ ?c)"
      by (intro der_items_append [OF der_items_single der_items_single])
  qed
  then show "der_item 3 bs" by (simp add: numeral_3_eq_3)
  show "rvBytes (algParameters (eciAlgorithm (eciNorm (sealedECI algID tag params c)))) = params"
    "rvIsCompound (eciContent (eciNorm (sealedECI algID tag params c)))"
    "rvBytes (eciContent (eciNorm (sealedECI algID tag params c))) = marshalOctets c"
    using p len3 assms(2,3)
    by (simp_all add: sealedECI_def eciNorm_def algNorm_def rawNorm_def marshalEncryptedContent_def
        rawElement_def element_tlv)
qed

lemma sealedECI_alg [simp]: "algOID (eciAlgorithm (eciNorm (sealedECI algID tag params c))) = algID"
  by (simp add: sealedECI_def eciNorm_def algNorm_def)

lemma marshalOID_total: "oid_ok oid \<Longrightarrow> \<exists>bs. marshalOID oid = Inr bs"
  using makeObjectIdentifier_ok [of oid] by (auto simp: marshalOID_def)

lemma sealedECI_total: "oid_ok algID \<Longrightarrow> \<exists>bs. marshalECI (sealedECI algID tag params c) = Inr bs"
  using marshalOID_total [of algID] marshalOID_total [of OIDData]
  by (auto simp: sealedECI_def marshalECI_def marshalAlg_def marshalSequence_def)

section \<open>The contract of a content cipher\<close>

text \<open>
  What the envelopes rely on: a given key is used as it is, the \<open>encryptedContentInfo\<close> can be
  written, what is written is DER three levels deep, and what is read back decrypts to the content.
\<close>

locale content_scheme =
  fixes encrypt :: "'c \<Rightarrow> bytes \<Rightarrow> bytes option \<Rightarrow> entropy \<Rightarrow> ((bytes \<times> encryptedContentInfo) \<times> entropy) result"
    and decrypt :: "'c \<Rightarrow> encryptedContentInfo \<Rightarrow> bytes \<Rightarrow> bytes result"
    and usable :: "'c \<Rightarrow> bool"
  assumes key_kept: "encrypt C content (Some psk) ent = Inr ((k, eci), ent') \<Longrightarrow> k = psk"
    and marshal_total: "encrypt C content key ent = Inr ((k, eci), ent') \<Longrightarrow> \<exists>bs. marshalECI eci = Inr bs"
    and sealed: "usable C \<Longrightarrow> encrypt C content key ent = Inr ((k, eci), ent') \<Longrightarrow> marshalECI eci = Inr bs \<Longrightarrow>
      length bs < 2 ^ 31 \<Longrightarrow> eci_ok eci \<and> der_item 3 bs \<and> decrypt C (eciNorm eci) k = Inr content"
begin

lemma reads_back:
  assumes "usable C" "encrypt C content key ent = Inr ((k, eci), ent')" "marshalECI eci = Inr bs" "length bs < 2 ^ 31"
  shows "\<exists>eci'. parseECI (bs @ rest) = Inr (eci', rest) \<and> decrypt C eci' k = Inr content"
  using sealed [OF assms] eci_dec_enc [OF _ assms(3,4), of rest] by blast

end

lemma keyOrRandom_Some [simp]: "keyOrRandom (Some k) n ent = Inr (k, ent)"
  by (simp add: keyOrRandom_def)

lemma des_NewCipher_size: "des_NewCipher C key = Inr block \<Longrightarrow> BlockSize block = 8"
  by (auto simp: des_NewCipher_def split: if_splits)

lemma aes_NewCipher_size: "aes_NewCipher C key = Inr block \<Longrightarrow> BlockSize block = 16"
  by (auto simp: aes_NewCipher_def split: if_splits)

text \<open>CBC decryption of what was sealed with CBC.\<close>

lemma eci_decrypt_cbc:
  assumes "algID \<in> {OIDEncryptionAlgorithmDESCBC, OIDEncryptionAlgorithmAES256CBC, OIDEncryptionAlgorithmAES128CBC}"
    and "contentCipher C algID key = Inr block" "cipher_ok block" "BlockSize block \<le> 255" "length iv = BlockSize block"
    and "pad content (int (BlockSize block)) = Inr plaintext" "cbc_encrypt block iv plaintext = Inr c"
    and "marshalECI (sealedECI algID 4 iv c) = Inr bs" "length bs < 2 ^ 31"
  shows "eci_decrypt C (eciNorm (sealedECI algID 4 iv c)) key = Inr content"
proof -
  have oid: "oid_ok algID" using assms(1) by auto
  have alg: "algID \<in> {OIDEncryptionAlgorithmDESCBC, OIDEncryptionAlgorithmDESEDE3CBC, OIDEncryptionAlgorithmAES256CBC,
      OIDEncryptionAlgorithmAES128CBC, OIDEncryptionAlgorithmAES128GCM, OIDEncryptionAlgorithmAES256GCM}"
    "\<not> (algID = OIDEncryptionAlgorithmAES128GCM \<or> algID = OIDEncryptionAlgorithmAES256GCM)"
    using assms(1) by auto
  let ?eci = "eciNorm (sealedECI algID 4 iv c)"
  note m = sealedECI_marshal [OF oid _ _ assms(8,9)]
  have parts: "rvBytes (algParameters (eciAlgorithm ?eci)) = iv" "rvIsCompound (eciContent ?eci)"
    "octetParts (rvBytes (eciContent ?eci)) = c"
    using m(4-7) octetParts_octets [of c] by simp_all
  from pad_cbc [OF assms(3-7)] obtain p where p: "length c \<noteq> 0" "length c mod BlockSize block = 0"
    "cbc_decrypt block iv c = Inr p" "unpad p (int (BlockSize block)) = Inr content" by (elim conjE exE)
  show ?thesis
    unfolding eci_decrypt_def Let_def sealedECI_alg parts if_P [OF parts(2)] assms(2) and_then_simps if_not_P [OF alg(2)]
    using alg(1) assms(5) p by (simp del: insert_iff)
qed

interpretation des_cbc: content_scheme encryptDESCBC eci_decrypt crypto_ok
proof unfold_locales
  fix C content psk ent k eci ent'
  assume "encryptDESCBC C content (Some psk) ent = Inr ((k, eci), ent')"
  then show "k = psk" by (auto simp: encryptDESCBC_def)
next
  fix C content key ent k eci ent'
  assume "encryptDESCBC C content key ent = Inr ((k, eci), ent')"
  then show "\<exists>bs. marshalECI eci = Inr bs"
    by (auto simp: encryptDESCBC_def sealedECI_total simp flip: sealedECI_def)
next
  fix C content key ent k eci ent' bs
  assume C: "crypto_ok C" and enc: "encryptDESCBC C content key ent = Inr ((k, eci), ent')"
    and bs: "marshalECI eci = Inr bs" "length bs < 2 ^ 31"
  from enc obtain ent1 iv ent2 block plaintext c where
    iv: "rand_Read 8 ent1 = Inr (iv, ent2)" and block: "des_NewCipher C k = Inr block"
    and pad: "pad content (int (BlockSize block)) = Inr plaintext" and c: "cbc_encrypt block iv plaintext = Inr c"
    and eci: "eci = sealedECI OIDEncryptionAlgorithmDESCBC 4 iv c"
    by (auto simp: encryptDESCBC_def sealedECI_def)
  have size: "BlockSize block = 8" "length iv = 8" using block iv by (auto dest: rand_Read_Inr des_NewCipher_size)
  have "eci_decrypt C (eciNorm eci) k = Inr content"
    unfolding eci
    by (rule eci_decrypt_cbc [OF _ _ crypto_okD(2) [OF C block] _ _ pad c bs(1) [unfolded eci] bs(2)])
      (simp_all add: size contentCipher_def block)
  then show "eci_ok eci \<and> der_item 3 bs \<and> eci_decrypt C (eciNorm eci) k = Inr content"
    using sealedECI_marshal(1,2) [OF _ _ _ bs(1) [unfolded eci] bs(2)] by (simp add: eci)
qed

text \<open>For AES the package variable is part of the scheme.\<close>

interpretation aes_cbc: content_scheme "\<lambda>(C, cea). encryptAESCBC C cea" "\<lambda>(C, cea). eci_decrypt C"
  "\<lambda>(C, cea :: int). crypto_ok C"
proof (unfold_locales; unfold split_paired_all case_prod_conv)
  fix C cea content psk ent k eci ent'
  assume "encryptAESCBC C cea content (Some psk) ent = Inr ((k, eci), ent')"
  then show "k = psk" by (auto simp: encryptAESCBC_def split: if_splits)
next
  fix C cea content key ent k eci ent'
  assume "encryptAESCBC C cea content key ent = Inr ((k, eci), ent')"
  then show "\<exists>bs. marshalECI eci = Inr bs"
    by (auto simp: encryptAESCBC_def sealedECI_total simp flip: sealedECI_def split: if_splits)
next
  fix C cea content key ent k eci ent' bs
  assume C: "crypto_ok C" and enc: "encryptAESCBC C cea content key ent = Inr ((k, eci), ent')"
    and bs: "marshalECI eci = Inr bs" "length bs < 2 ^ 31"
  from enc obtain alg ent1 iv ent2 block plaintext c where
    alg: "alg \<in> {OIDEncryptionAlgorithmDESCBC, OIDEncryptionAlgorithmAES256CBC, OIDEncryptionAlgorithmAES128CBC}"
      "contentCipher C alg k = Inr block" and block: "aes_NewCipher C k = Inr block"
    and iv: "rand_Read 16 ent1 = Inr (iv, ent2)"
    and pad: "pad content (int (BlockSize block)) = Inr plaintext" and c: "cbc_encrypt block iv plaintext = Inr c"
    and eci: "eci = sealedECI alg 4 iv c"
    by (auto simp: encryptAESCBC_def sealedECI_def contentCipher_def split: if_splits)
  have size: "BlockSize block = 16" "length iv = 16" using block iv by (auto dest: rand_Read_Inr aes_NewCipher_size)
  have "eci_decrypt C (eciNorm eci) k = Inr content"
    unfolding eci
    by (rule eci_decrypt_cbc [OF alg crypto_okD(1) [OF C block] _ _ pad c bs(1) [unfolded eci] bs(2)])
      (simp_all add: size)
  then show "eci_ok eci \<and> der_item 3 bs \<and> eci_decrypt C (eciNorm eci) k = Inr content"
    using sealedECI_marshal(1,2) [OF _ _ _ bs(1) [unfolded eci] bs(2)] alg(1) by (auto simp: eci)
qed

lemma eci_decrypt_gcm:
  assumes C: "crypto_ok C" and algID: "algID \<in> {OIDEncryptionAlgorithmAES128GCM, OIDEncryptionAlgorithmAES256GCM}"
    and block: "aes_NewCipher C key = Inr block" and nonce: "length nonce = nonceSize"
    and params: "marshalGCM \<lparr>gcmNonce = nonce, gcmICVLen = gcmOverhead\<rparr> = Inr params"
    and bs: "marshalECI (sealedECI algID 16 params (gcm_seal C block nonce content)) = Inr bs" "length bs < 2 ^ 31"
  shows "eci_decrypt C (eciNorm (sealedECI algID 16 params (gcm_seal C block nonce content))) key = Inr content"
proof -
  have oid: "oid_ok algID" using algID by auto
  have alg: "algID \<in> {OIDEncryptionAlgorithmDESCBC, OIDEncryptionAlgorithmDESEDE3CBC, OIDEncryptionAlgorithmAES256CBC,
      OIDEncryptionAlgorithmAES128CBC, OIDEncryptionAlgorithmAES128GCM, OIDEncryptionAlgorithmAES256GCM}"
    "algID = OIDEncryptionAlgorithmAES128GCM \<or> algID = OIDEncryptionAlgorithmAES256GCM"
    "contentCipher C algID key = Inr block"
    using algID block by (auto simp: contentCipher_def)
  let ?c = "gcm_seal C block nonce content"
  let ?eci = "eciNorm (sealedECI algID 16 params ?c)"
  note m = sealedECI_marshal [OF oid _ _ bs]
  have parts: "rvBytes (algParameters (eciAlgorithm ?eci)) = params" "rvIsCompound (eciContent ?eci)"
    "octetParts (rvBytes (eciContent ?eci)) = ?c"
    using m(4-7) octetParts_octets [of ?c] by simp_all
  have "parseGCM (params @ []) = Inr (\<lparr>gcmNonce = nonce, gcmICVLen = gcmOverhead\<rparr>, [])"
    by (rule gcm_dec_enc [OF _ _ params]) (use m(3) in \<open>simp_all add: gcmOverhead_def\<close>)
  then have gcm: "parseGCM params = Inr (\<lparr>gcmNonce = nonce, gcmICVLen = gcmOverhead\<rparr>, [])" by simp
  have "gcm_open C block nonce ?c = Inr content"
    using crypto_okD(4) [OF C aes_NewCipher_size [OF block]] nonce by (simp add: nonceSize_def)
  then show ?thesis
    unfolding eci_decrypt_def Let_def sealedECI_alg parts if_P [OF parts(2)] alg(3) and_then_simps if_P [OF alg(2)] gcm
    using alg(1) nonce by (simp del: insert_iff)
qed

interpretation aes_gcm: content_scheme "\<lambda>(C, cea). encryptAESGCM C cea" "\<lambda>(C, cea). eci_decrypt C"
  "\<lambda>(C, cea :: int). crypto_ok C"
proof (unfold_locales; unfold split_paired_all case_prod_conv)
  fix C cea content psk ent k eci ent'
  assume "encryptAESGCM C cea content (Some psk) ent = Inr ((k, eci), ent')"
  then show "k = psk" by (auto simp: encryptAESGCM_def Let_def split: if_splits)
next
  fix C cea content key ent k eci ent'
  assume "encryptAESGCM C cea content key ent = Inr ((k, eci), ent')"
  then show "\<exists>bs. marshalECI eci = Inr bs"
    by (auto simp: encryptAESGCM_def Let_def sealedECI_total simp flip: sealedECI_def split: if_splits)
next
  fix C cea content key ent k eci ent' bs
  assume C: "crypto_ok C" and enc: "encryptAESGCM C cea content key ent = Inr ((k, eci), ent')"
    and bs: "marshalECI eci = Inr bs" "length bs < 2 ^ 31"
  from enc obtain alg ent1 nonce ent2 block params where
    alg: "alg \<in> {OIDEncryptionAlgorithmAES128GCM, OIDEncryptionAlgorithmAES256GCM}"
    and block: "aes_NewCipher C k = Inr block" and nonce: "rand_Read nonceSize ent1 = Inr (nonce, ent2)"
    and params: "marshalGCM \<lparr>gcmNonce = nonce, gcmICVLen = gcmOverhead\<rparr> = Inr params"
    and eci: "eci = sealedECI alg 16 params (gcm_seal C block nonce content)"
    by (auto simp: encryptAESGCM_def Let_def sealedECI_def split: if_splits)
  have "eci_decrypt C (eciNorm eci) k = Inr content"
    unfolding eci by (rule eci_decrypt_gcm [OF C alg block rand_Read_Inr [OF nonce] params bs(1) [unfolded eci] bs(2)])
  then show "eci_ok eci \<and> der_item 3 bs \<and> eci_decrypt C (eciNorm eci) k = Inr content"
    using sealedECI_marshal(1,2) [OF _ _ _ bs(1) [unfolded eci] bs(2)] alg by (auto simp: eci)
qed

end
