(* ===== verification/Kem.thy ===== *)
theory Kem
  imports Certificates KeyWrap ContentEncryption
begin

text \<open>
  The KEM recipients of \<open>kem.go\<close> (RFC 9629): a shared secret is encapsulated for the recipient's
  ML-KEM key, a key-encryption key is derived from it, and the content key is wrapped under that.
\<close>

section \<open>Structures\<close>

definition mlKEMKEKLength :: int where
  "mlKEMKEKLength = 32"

record otherRecipientInfo =
  oriType :: oid
  oriValue :: RawValue

definition oriFields :: "otherRecipientInfo decoder" where
  "oriFields bs = and_then (parseOID bs) (\<lambda>(t, bs). and_then (parseRaw None bs)
     (\<lambda>(v, bs). Inr (\<lparr>oriType = t, oriValue = v\<rparr>, bs)))"

definition parseORI :: "otherRecipientInfo decoder" where
  "parseORI = parseStruct oriFields None"

definition marshalORI :: "otherRecipientInfo \<Rightarrow> bytes result" where
  "marshalORI ori = marshalSequence [marshalOID (oriType ori), Inr (marshalRaw (oriValue ori))]"

text \<open>The optional, explicitly tagged octet string \<open>UKM\<close>; \<open>None\<close> is a nil slice.\<close>

definition parseUKM :: "bytes option decoder" where
  "parseUKM = parseExplicit 0 (universal 4 False) (\<lambda>_ inner _. Inr (Some inner)) (Some None)"

definition marshalUKM :: "bytes option \<Rightarrow> bytes" where
  "marshalUKM ukm = (case ukm of None \<Rightarrow> [] | Some u \<Rightarrow> tlv 2 True 0 (marshalOctets u))"

record kemRecipientInfo =
  kemVersion :: int
  kemRecipientID :: RawValue
  kemKEM :: AlgorithmIdentifier
  kemCiphertext :: bytes
  kemKDF :: AlgorithmIdentifier
  kemKEKLength :: int
  kemUKM :: "bytes option"
  kemWrap :: AlgorithmIdentifier
  kemEncryptedKey :: bytes

definition kemFields :: "kemRecipientInfo decoder" where
  "kemFields bs =
     and_then (parseInt bs) (\<lambda>(v, bs). and_then (parseRaw None bs) (\<lambda>(rid, bs).
     and_then (parseAlg bs) (\<lambda>(kem, bs). and_then (parseOctets bs) (\<lambda>(ct, bs).
     and_then (parseAlg bs) (\<lambda>(kdf, bs). and_then (parseInt bs) (\<lambda>(len, bs).
     and_then (parseUKM bs) (\<lambda>(ukm, bs). and_then (parseAlg bs) (\<lambda>(wrap, bs).
     and_then (parseOctets bs) (\<lambda>(key, bs).
       Inr (\<lparr>kemVersion = v, kemRecipientID = rid, kemKEM = kem, kemCiphertext = ct, kemKDF = kdf,
         kemKEKLength = len, kemUKM = ukm, kemWrap = wrap, kemEncryptedKey = key\<rparr>, bs))))))))))"

definition parseKEM :: "kemRecipientInfo decoder" where
  "parseKEM = parseStruct kemFields None"

definition marshalKEM :: "kemRecipientInfo \<Rightarrow> bytes result" where
  "marshalKEM info = marshalSequence
     [Inr (marshalInt (kemVersion info)), Inr (marshalRaw (kemRecipientID info)), marshalAlg (kemKEM info),
      Inr (marshalOctets (kemCiphertext info)), marshalAlg (kemKDF info), Inr (marshalInt (kemKEKLength info)),
      Inr (marshalUKM (kemUKM info)), marshalAlg (kemWrap info), Inr (marshalOctets (kemEncryptedKey info))]"

text \<open>\<open>cmsORIForKEMOtherInfo\<close>, the context of the key derivation.\<close>

definition marshalOtherInfo :: "AlgorithmIdentifier \<Rightarrow> int \<Rightarrow> bytes option \<Rightarrow> bytes result" where
  "marshalOtherInfo wrap kekLength ukm =
     marshalSequence [marshalAlg wrap, Inr (marshalInt kekLength), Inr (marshalUKM ukm)]"

text \<open>BIT STRING and \<open>subjectPublicKeyInfo\<close>: the bytes and the length in bits.\<close>

definition parseBitString :: "bytes \<Rightarrow> (bytes \<times> int) result" where
  "parseBitString bs =
     (if bs = [] then Inl (Asn1Error BadBitString)
      else let padding = unat (hd bs) in
        if padding > 7 \<or> length bs = 1 \<and> padding > 0 \<or> unat (last bs) mod 2 ^ padding \<noteq> 0
        then Inl (Asn1Error BadBitString)
        else Inr (tl bs, int ((length bs - 1) * 8) - int padding))"

record subjectPublicKeyInfo =
  spkiAlgorithm :: AlgorithmIdentifier
  spkiBytes :: bytes
  spkiBitLength :: int

definition spkiFields :: "subjectPublicKeyInfo decoder" where
  "spkiFields bs = and_then (parseAlg bs) (\<lambda>(alg, bs).
     and_then (parseField (universal 3 False) (\<lambda>_ inner _. parseBitString inner) None bs) (\<lambda>((key, bits), bs).
       Inr (\<lparr>spkiAlgorithm = alg, spkiBytes = key, spkiBitLength = bits\<rparr>, bs)))"

definition parseSPKI :: "subjectPublicKeyInfo decoder" where
  "parseSPKI = parseStruct spkiFields None"

section \<open>Operations\<close>

definition wrapped :: "error_context \<Rightarrow> 'a result \<Rightarrow> 'a result" where
  "wrapped ctxt r = (case r of Inl e \<Rightarrow> Inl (Wrapped ctxt e) | Inr v \<Rightarrow> Inr v)"

text \<open>Decode a whole value: \<open>asn1.Unmarshal\<close>, then an error if anything is left.\<close>

definition unmarshalAll :: "error_context \<Rightarrow> recipient_error \<Rightarrow> 'a decoder \<Rightarrow> bytes \<Rightarrow> 'a result" where
  "unmarshalAll ctxt trailing dec bs = and_then (wrapped ctxt (dec bs)) (\<lambda>(v, rest).
     if length rest \<noteq> 0 then Inl (RecipientError trailing) else Inr v)"

definition algorithmIdentifierHasParameters :: "AlgorithmIdentifier \<Rightarrow> bool" where
  "algorithmIdentifierHasParameters identifier \<longleftrightarrow> length (rvFullBytes (algParameters identifier)) \<noteq> 0"

definition marshalRecipientInfo :: "bytes result \<Rightarrow> RawValue result" where
  "marshalRecipientInfo der =
     and_then der (unmarshalAll CannotMarshalRecipient RecipientTrailingData (parseRaw None))"

definition recipientIdentifierForCertificate :: "Certificate \<Rightarrow> RawValue result" where
  "recipientIdentifierForCertificate cert = marshalRecipientInfo (marshalIAS (cert2issuerAndSerial cert))"

definition marshalOtherRecipientInfo :: "oid \<Rightarrow> bytes \<Rightarrow> RawValue result" where
  "marshalOtherRecipientInfo oid valueDER =
     and_then (marshalRecipientInfo (marshalORI \<lparr>oriType = oid, oriValue = rawFull valueDER\<rparr>)) (\<lambda>sequence.
       Inr (rawOf 2 4 True (rvBytes sequence)))"

definition parseOtherRecipientInfo :: "RawValue \<Rightarrow> otherRecipientInfo result" where
  "parseOtherRecipientInfo raw =
     (if rvClass raw \<noteq> 2 \<or> rvTag raw \<noteq> 4 \<or> \<not> rvIsCompound raw then Inl (RecipientError NotOtherRecipientInfo)
      else unmarshalAll MalformedOtherRecipient OtherRecipientTrailingData parseORI
        (marshalRaw (rawOf 0 16 True (rvBytes raw))))"

definition deriveKEMKey :: "pke \<Rightarrow> bytes \<Rightarrow> AlgorithmIdentifier \<Rightarrow> int \<Rightarrow> bytes option \<Rightarrow> bytes result" where
  "deriveKEMKey P sharedSecret wrap kekLength ukm =
     and_then (marshalOtherInfo wrap kekLength ukm) (\<lambda>infoDER. hkdf_Key P sharedSecret infoDER kekLength)"

definition encapsulateWith ::
  "pke \<Rightarrow> mlkem \<Rightarrow> oid \<Rightarrow> bytes \<Rightarrow> entropy \<Rightarrow> ((oid \<times> bytes \<times> bytes) \<times> entropy) result" where
  "encapsulateWith P kem oid publicKey ent =
     and_then (mlkem_Encapsulate P kem publicKey ent) (\<lambda>((sharedSecret, ciphertext), ent).
       Inr ((oid, sharedSecret, ciphertext), ent))"

definition encapsulateForCertificate ::
  "pke \<Rightarrow> Certificate \<Rightarrow> entropy \<Rightarrow> ((oid \<times> bytes \<times> bytes) \<times> entropy) result" where
  "encapsulateForCertificate P cert ent =
     (if length (RawSubjectPublicKeyInfo cert) = 0
      then (case certPublicKey cert of
          EncapsulationKey768 k \<Rightarrow> encapsulateWith P MLKEM768 OIDKeyAlgorithmMLKEM768 k ent
        | EncapsulationKey1024 k \<Rightarrow> encapsulateWith P MLKEM1024 OIDKeyAlgorithmMLKEM1024 k ent
        | _ \<Rightarrow> Inl (RecipientError UnsupportedRecipientKeyType))
      else and_then (unmarshalAll CannotParseSPKI SPKITrailingData parseSPKI (RawSubjectPublicKeyInfo cert)) (\<lambda>spki.
        if algorithmIdentifierHasParameters (spkiAlgorithm spki) then Inl (RecipientError SPKIParametersPresent)
        else if spkiBitLength spki \<noteq> int (length (spkiBytes spki)) * 8 then Inl (RecipientError SPKIMalformedKey)
        else let alg = algOID (spkiAlgorithm spki) in
          if alg = OIDKeyAlgorithmMLKEM512 then Inl (RecipientError MLKEM512Unsupported)
          else if alg = OIDKeyAlgorithmMLKEM768
          then and_then (wrapped InvalidMLKEMKey (mlkem_NewEncapsulationKey P MLKEM768 (spkiBytes spki))) (\<lambda>k.
            encapsulateWith P MLKEM768 OIDKeyAlgorithmMLKEM768 k ent)
          else if alg = OIDKeyAlgorithmMLKEM1024
          then and_then (wrapped InvalidMLKEMKey (mlkem_NewEncapsulationKey P MLKEM1024 (spkiBytes spki))) (\<lambda>k.
            encapsulateWith P MLKEM1024 OIDKeyAlgorithmMLKEM1024 k ent)
          else Inl (RecipientError UnsupportedRecipientKeyAlgorithm)))"

definition makeKEMRecipientInfo ::
  "crypto \<Rightarrow> pke \<Rightarrow> int \<Rightarrow> bytes \<Rightarrow> Certificate option \<Rightarrow> entropy \<Rightarrow> (RawValue \<times> entropy) result" where
  "makeKEMRecipientInfo C P cea contentKey recipient ent =
     (if cea \<noteq> EncryptionAlgorithmAES128CBC \<and> cea \<noteq> EncryptionAlgorithmAES256CBC then Inl (RecipientError KEMRequiresAESCBC)
      else if length contentKey < 16 \<or> length contentKey mod 8 \<noteq> 0 then Inl (RecipientError KEMInvalidKeyLength)
      else (case recipient of None \<Rightarrow> Inl (RecipientError RecipientCertificateNil)
        | Some recipient \<Rightarrow>
          if certKeyUsage recipient \<noteq> 0 \<and> certKeyUsage recipient \<noteq> 4 then Inl (RecipientError KEMKeyUsage)
          else and_then (encapsulateForCertificate P recipient ent) (\<lambda>((kemOID, sharedSecret, ciphertext), ent).
            let wrap = algOnly OIDKeyWrapAES256 in
            and_then (deriveKEMKey P sharedSecret wrap mlKEMKEKLength None) (\<lambda>kek.
            and_then (aesKeyWrap C kek contentKey) (\<lambda>encryptedKey.
            and_then (recipientIdentifierForCertificate recipient) (\<lambda>recipientID.
            and_then (marshalKEM \<lparr>kemVersion = 0, kemRecipientID = recipientID, kemKEM = algOnly kemOID,
                kemCiphertext = ciphertext, kemKDF = algOnly OIDKDFHKDFSHA256, kemKEKLength = mlKEMKEKLength,
                kemUKM = None, kemWrap = wrap, kemEncryptedKey = encryptedKey\<rparr>) (\<lambda>kemDER.
            and_then (marshalOtherRecipientInfo OIDOtherRecipientInfoKEM kemDER) (\<lambda>raw. Inr (raw, ent)))))))))"

definition mlKEMDecapsulator :: "pke \<Rightarrow> PrivateKey \<Rightarrow> (oid \<times> (bytes \<Rightarrow> bytes result)) option" where
  "mlKEMDecapsulator P privateKey = (case privateKey of
     DecapsulationKey768 k \<Rightarrow> Some (OIDKeyAlgorithmMLKEM768, mlkem_Decapsulate P MLKEM768 k)
   | DecapsulationKey1024 k \<Rightarrow> Some (OIDKeyAlgorithmMLKEM1024, mlkem_Decapsulate P MLKEM1024 k)
   | _ \<Rightarrow> None)"

definition recipientIdentifierMatchesCertificate :: "RawValue \<Rightarrow> Certificate option \<Rightarrow> bool result" where
  "recipientIdentifierMatchesCertificate identifier cert = (case cert of
     None \<Rightarrow> Inl (RecipientError RecipientCertificateNil)
   | Some cert \<Rightarrow>
       if rvClass identifier = 0 \<and> rvTag identifier = 16
       then and_then (unmarshalAll MalformedIssuerAndSerial IssuerAndSerialTrailingData parseIAS (rvFullBytes identifier))
         (\<lambda>ias. Inr (isCertMatchForIssuerAndSerial cert ias))
       else if rvClass identifier = 2 \<and> rvTag identifier = 0
       then (if length (rvBytes identifier) = 0 \<or> length (SubjectKeyId cert) = 0 then Inr False
             else Inr (ConstantTimeCompare (rvBytes identifier) (SubjectKeyId cert) = 1))
       else Inl (RecipientError UnsupportedRecipientIdentifier))"

text \<open>The checks and steps for the recipient that matches.\<close>

definition openKEMRecipient ::
  "crypto \<Rightarrow> pke \<Rightarrow> oid \<Rightarrow> (bytes \<Rightarrow> bytes result) \<Rightarrow> kemRecipientInfo \<Rightarrow> bytes result" where
  "openKEMRecipient C P expectedKEM decapsulate info =
     (if kemVersion info \<noteq> 0 then Inl (RecipientError KEMVersion)
      else if algOID (kemKEM info) \<noteq> expectedKEM then Inl (RecipientError KEMAlgorithmMismatch)
      else if algorithmIdentifierHasParameters (kemKEM info) then Inl (RecipientError KEMParametersPresent)
      else if algOID (kemKDF info) \<noteq> OIDKDFHKDFSHA256 \<or> algorithmIdentifierHasParameters (kemKDF info)
      then Inl (RecipientError KEMUnsupportedKDF)
      else if algOID (kemWrap info) \<noteq> OIDKeyWrapAES256 \<or> algorithmIdentifierHasParameters (kemWrap info) \<or>
        kemKEKLength info \<noteq> mlKEMKEKLength
      then Inl (RecipientError KEMUnsupportedWrap)
      else and_then (wrapped DecapsulationFailed (decapsulate (kemCiphertext info))) (\<lambda>sharedSecret.
        and_then (deriveKEMKey P sharedSecret (kemWrap info) (kemKEKLength info) (kemUKM info)) (\<lambda>kek.
          aesKeyUnwrap C kek (kemEncryptedKey info))))"

fun decryptKEMRecipients ::
  "crypto \<Rightarrow> pke \<Rightarrow> oid \<Rightarrow> (bytes \<Rightarrow> bytes result) \<Rightarrow> RawValue list \<Rightarrow> Certificate option \<Rightarrow> bytes result" where
  "decryptKEMRecipients C P expectedKEM decapsulate [] cert = Inl (RecipientError NoRecipientForCertificate)"
| "decryptKEMRecipients C P expectedKEM decapsulate (raw # recipients) cert =
     (if rvClass raw \<noteq> 2 \<or> rvTag raw \<noteq> 4 then decryptKEMRecipients C P expectedKEM decapsulate recipients cert
      else and_then (parseOtherRecipientInfo raw) (\<lambda>other.
        if oriType other \<noteq> OIDOtherRecipientInfoKEM then decryptKEMRecipients C P expectedKEM decapsulate recipients cert
        else and_then (unmarshalAll MalformedKEMRecipient KEMTrailingData parseKEM (rvFullBytes (oriValue other))) (\<lambda>info.
          and_then (recipientIdentifierMatchesCertificate (kemRecipientID info) cert) (\<lambda>matches.
            if \<not> matches then decryptKEMRecipients C P expectedKEM decapsulate recipients cert
            else openKEMRecipient C P expectedKEM decapsulate info))))"

definition decryptKEMRecipientKey ::
  "crypto \<Rightarrow> pke \<Rightarrow> RawValue list \<Rightarrow> Certificate option \<Rightarrow> PrivateKey \<Rightarrow> bytes result" where
  "decryptKEMRecipientKey C P recipients cert privateKey = (case mlKEMDecapsulator P privateKey of
     None \<Rightarrow> Inl ErrUnsupportedAlgorithm
   | Some (expectedKEM, decapsulate) \<Rightarrow> decryptKEMRecipients C P expectedKEM decapsulate recipients cert)"

end
