(* ===== verification/KemLaws.thy ===== *)
theory KemLaws
  imports Kem
begin

text \<open>
  The laws of the KEM recipients: what is written is read back, and the content key wrapped for a
  certificate is recovered with the matching decapsulation key.
\<close>

section \<open>Structures\<close>

lemma ori_dec_enc:
  assumes "oid_ok oid" "element (\<lambda>_. True) full" "marshalORI \<lparr>oriType = oid, oriValue = rawFull full\<rparr> = Inr bs"
    and "length bs < 2 ^ 31"
  shows "parseORI (bs @ rest) = Inr (\<lparr>oriType = oid, oriValue = rawElement full\<rparr>, rest)"
proof -
  have full: "marshalRaw (rawFull full) = full"
    using element_nonempty [OF assms(2)] by (simp add: marshalRaw_def rawFull_def)
  with assms(3) obtain t where t: "marshalOID oid = Inr t" and bs: "bs = tlv 0 True 16 (t @ full)"
    by (auto simp: marshalORI_def marshalSequence_def)
  from length_body [OF assms(4) [unfolded bs]] have "length t < 2 ^ 31" by simp
  with oid_dec_enc [OF assms(1) t] parseRaw_element [OF assms(2), of None "[]"]
  have "oriFields (t @ full) = Inr (\<lparr>oriType = oid, oriValue = rawElement full\<rparr>, [])"
    by (simp add: oriFields_def)
  with assms(4) show ?thesis unfolding bs parseORI_def by (intro parseStruct_parts)
qed

text \<open>An absent \<open>UKM\<close> leaves the SEQUENCE that follows alone; a present one is taken off.\<close>

lemma parseUKM_enc:
  assumes "length (marshalUKM ukm) < 2 ^ 31" "next = tlv 0 True 16 body @ rest" "body \<noteq> []" "length body < 2 ^ 31"
  shows "parseUKM (marshalUKM ukm @ next) = Inr (ukm, next)"
proof (cases ukm)
  case None
  have "next \<noteq> []" "body @ rest \<noteq> []" using assms(2,3) by simp_all
  with None assms(2,4) show ?thesis
    by (simp add: parseUKM_def parseExplicit_def marshalUKM_def parse_tlv orDefault_def)
next
  case (Some u)
  let ?o = "marshalOctets u"
  have m: "marshalUKM ukm = tlv 2 True 0 ?o" using Some by (simp add: marshalUKM_def)
  from length_body [OF assms(1) [unfolded m]] have o: "length ?o < 2 ^ 31" .
  from length_body [OF this [unfolded marshalOctets_def]] have u: "length u < 2 ^ 31" .
  have ne: "?o @ next \<noteq> []" "0 < length ?o" by (simp_all add: marshalOctets_def)
  have "parseTagAndLength (?o @ next) = Inr (\<lparr>hClass = 0, hTag = 4, hLen = length u, hCompound = False\<rparr>, u @ next)"
    unfolding marshalOctets_def using u by (intro parse_tlv) simp_all
  then show ?thesis
    using o ne by (simp add: m [unfolded Some] Some parseUKM_def parseExplicit_def parse_tlv parseValue_def universal_def)
qed

definition kem_ok :: "kemRecipientInfo \<Rightarrow> bool" where
  "kem_ok info \<longleftrightarrow> -(2 ^ 63) \<le> kemVersion info \<and> kemVersion info < 2 ^ 63 \<and>
     -(2 ^ 63) \<le> kemKEKLength info \<and> kemKEKLength info < 2 ^ 63 \<and>
     element (\<lambda>_. True) (marshalRaw (kemRecipientID info)) \<and>
     (\<forall>a \<in> {kemKEM info, kemKDF info, kemWrap info}. oid_ok (algOID a) \<and> raw_ok (algParameters a))"

definition kemNorm :: "kemRecipientInfo \<Rightarrow> kemRecipientInfo" where
  "kemNorm info = info\<lparr>kemRecipientID := rawElement (marshalRaw (kemRecipientID info)),
     kemKEM := algNorm (kemKEM info), kemKDF := algNorm (kemKDF info), kemWrap := algNorm (kemWrap info)\<rparr>"

lemma marshalAlg_shape:
  assumes "marshalAlg a = Inr bs" "length bs < 2 ^ 31"
  obtains body where "bs = tlv 0 True 16 body" "body \<noteq> []" "length body < 2 ^ 31"
proof -
  from assms(1) obtain ct where oid: "marshalOID (algOID a) = Inr ct"
    and bs: "bs = tlv 0 True 16 (ct @ marshalOptionalRaw (algParameters a))"
    by (auto simp: marshalAlg_def marshalSequence_def)
  from length_marshalOID [OF oid] have "ct \<noteq> []" by auto
  with that [OF bs] length_body [OF assms(2) [unfolded bs]] show thesis by simp
qed

lemma kem_dec_enc:
  assumes "kem_ok info" "marshalKEM info = Inr bs" "length bs < 2 ^ 31"
  shows "parseKEM (bs @ rest) = Inr (kemNorm info, rest)"
proof -
  define v rid ct len ukm key where "v = marshalInt (kemVersion info)" and "rid = marshalRaw (kemRecipientID info)"
    and "ct = marshalOctets (kemCiphertext info)" and "len = marshalInt (kemKEKLength info)"
    and "ukm = marshalUKM (kemUKM info)" and "key = marshalOctets (kemEncryptedKey info)"
  note parts = this
  from assms(2) obtain kem kdf wrap where kem: "marshalAlg (kemKEM info) = Inr kem"
    and kdf: "marshalAlg (kemKDF info) = Inr kdf" and wrap: "marshalAlg (kemWrap info) = Inr wrap"
    and bs: "bs = tlv 0 True 16 (v @ rid @ kem @ ct @ kdf @ len @ ukm @ wrap @ key)"
    unfolding parts by (auto simp: marshalKEM_def marshalSequence_def)
  from length_body [OF assms(3) [unfolded bs]] have l: "length kem < 2 ^ 31" "length kdf < 2 ^ 31"
    "length wrap < 2 ^ 31" "length ct < 2 ^ 31" "length key < 2 ^ 31" "length ukm < 2 ^ 31" by simp_all
  have octs: "length (kemCiphertext info) < 2 ^ 31" "length (kemEncryptedKey info) < 2 ^ 31"
    using length_body [OF l(4) [unfolded parts marshalOctets_def]]
      length_body [OF l(5) [unfolded parts marshalOctets_def]] by simp_all
  have 1: "parseInt (v @ r) = Inr (kemVersion info, r)" "parseInt (len @ r) = Inr (kemKEKLength info, r)" for r
    using assms(1) unfolding parts kem_ok_def by (auto intro!: int64.dec_enc)
  have 2: "parseRaw None (rid @ r) = Inr (rawElement rid, r)" for r
    using assms(1) unfolding parts by (intro parseRaw_element) (simp add: kem_ok_def)
  have 3: "parseAlg (kem @ r) = Inr (algNorm (kemKEM info), r)" "parseAlg (kdf @ r) = Inr (algNorm (kemKDF info), r)"
    "parseAlg (wrap @ r) = Inr (algNorm (kemWrap info), r)" for r
    using alg_dec_enc [OF _ _ kem l(1)] alg_dec_enc [OF _ _ kdf l(2)] alg_dec_enc [OF _ _ wrap l(3)] assms(1)
    by (simp_all add: kem_ok_def)
  have 4: "parseOctets (ct @ r) = Inr (kemCiphertext info, r)" "parseOctets (key @ r) = Inr (kemEncryptedKey info, r)" for r
    unfolding parts by (rule octets.dec_enc, rule octs)+
  obtain body where "wrap = tlv 0 True 16 body" "body \<noteq> []" "length body < 2 ^ 31"
    by (rule marshalAlg_shape [OF wrap l(3)])
  then have 5: "parseUKM (ukm @ wrap @ key) = Inr (kemUKM info, wrap @ key)"
    using l(6) unfolding parts by (intro parseUKM_enc) simp_all
  have norm: "kemNorm info = \<lparr>kemVersion = kemVersion info, kemRecipientID = rawElement rid,
      kemKEM = algNorm (kemKEM info), kemCiphertext = kemCiphertext info, kemKDF = algNorm (kemKDF info),
      kemKEKLength = kemKEKLength info, kemUKM = kemUKM info, kemWrap = algNorm (kemWrap info),
      kemEncryptedKey = kemEncryptedKey info\<rparr>"
    by (cases info) (simp add: kemNorm_def parts(2))
  have "kemFields (v @ rid @ kem @ ct @ kdf @ len @ ukm @ wrap @ key) = Inr (kemNorm info, [])"
    using 4(2) [of "[]"] by (simp add: kemFields_def 1 2 3 4(1) 5 norm)
  with assms(3) show ?thesis unfolding bs parseKEM_def by (intro parseStruct_parts)
qed

section \<open>One recipient\<close>

text \<open>A name a certificate carries: one value, and DER nested no deeper than \<open>k\<close>.\<close>

definition name_ok :: "nat \<Rightarrow> bytes \<Rightarrow> bool" where
  "name_ok k name \<longleftrightarrow> element (\<lambda>_. True) name \<and> der_item (Suc k) name"

text \<open>The ML-KEM key of a certificate, as \<open>encapsulateForCertificate\<close> finds it.\<close>

definition certificateKEMKey :: "pke \<Rightarrow> Certificate \<Rightarrow> (mlkem \<times> bytes) option" where
  "certificateKEMKey P cert =
     (if length (RawSubjectPublicKeyInfo cert) = 0
      then (case certPublicKey cert of EncapsulationKey768 k \<Rightarrow> Some (MLKEM768, k)
        | EncapsulationKey1024 k \<Rightarrow> Some (MLKEM1024, k) | _ \<Rightarrow> None)
      else (case parseSPKI (RawSubjectPublicKeyInfo cert) of Inl _ \<Rightarrow> None | Inr (spki, _) \<Rightarrow>
        if algOID (spkiAlgorithm spki) = OIDKeyAlgorithmMLKEM768
        then (case mlkem_NewEncapsulationKey P MLKEM768 (spkiBytes spki) of Inl _ \<Rightarrow> None | Inr k \<Rightarrow> Some (MLKEM768, k))
        else if algOID (spkiAlgorithm spki) = OIDKeyAlgorithmMLKEM1024
        then (case mlkem_NewEncapsulationKey P MLKEM1024 (spkiBytes spki) of Inl _ \<Rightarrow> None | Inr k \<Rightarrow> Some (MLKEM1024, k))
        else None))"

fun kemOID :: "mlkem \<Rightarrow> oid" where
  "kemOID MLKEM768 = OIDKeyAlgorithmMLKEM768"
| "kemOID MLKEM1024 = OIDKeyAlgorithmMLKEM1024"

fun decapsulationKey :: "mlkem \<Rightarrow> bytes \<Rightarrow> PrivateKey" where
  "decapsulationKey MLKEM768 k = DecapsulationKey768 k"
| "decapsulationKey MLKEM1024 k = DecapsulationKey1024 k"

lemma unmarshalAll_Inr: "unmarshalAll ctxt e dec bs = Inr v \<longleftrightarrow> dec bs = Inr (v, [])"
  by (auto simp: unmarshalAll_def wrapped_def and_then_Inr_iff split: sum.splits if_splits)

lemma wrapped_Inr [simp]: "wrapped ctxt r = Inr v \<longleftrightarrow> r = Inr v"
  by (cases r) (simp_all add: wrapped_def)

lemma encapsulate_key:
  assumes "encapsulateForCertificate P cert ent = Inr ((oid, s, c), ent')"
  obtains kem pub where "certificateKEMKey P cert = Some (kem, pub)" "oid = kemOID kem"
    "mlkem_Encapsulate P kem pub ent = Inr ((s, c), ent')"
proof (cases "length (RawSubjectPublicKeyInfo cert) = 0")
  case True
  with assms that show thesis
    by (cases "certPublicKey cert")
      (auto simp: encapsulateForCertificate_def certificateKEMKey_def encapsulateWith_def)
next
  case False
  with assms obtain spki where spki: "parseSPKI (RawSubjectPublicKeyInfo cert) = Inr (spki, [])"
    by (auto simp: encapsulateForCertificate_def unmarshalAll_Inr)
  with False assms that show thesis
    by (auto simp: encapsulateForCertificate_def certificateKEMKey_def encapsulateWith_def unmarshalAll_Inr Let_def
        split: if_splits)
qed

lemma rawNorm_zero [simp]: "algNorm (algOnly oid) = algOnly oid"
  by (simp add: algNorm_def algOnly_def rawNorm_def)

lemma algOnly_ok [simp]: "raw_ok (algParameters (algOnly oid))" "algOID (algOnly oid) = oid"
  "\<not> algorithmIdentifierHasParameters (algOnly oid)"
  by (simp_all add: algOnly_def raw_ok_def algorithmIdentifierHasParameters_def rawZero_def)

lemma length_tlv_small: "tag < 31 \<Longrightarrow> length (tlv cls compound tag body) = 1 + length (der_length (length body)) + length body"
  by (simp add: tlv_def appendTagAndLength_def tagOctets_def)

text \<open>The identifier of a certificate: what it is, and which certificates it matches.\<close>

lemma recipientIdentifier_shape:
  assumes "element (\<lambda>_. True) (RawIssuer cert)" "recipientIdentifierForCertificate cert = Inr rid"
    and "length (marshalRaw rid) < 2 ^ 31"
  shows "rid = rawElement (marshalRaw rid)" "element (universal 16 True) (marshalRaw rid)"
    "marshalIAS (cert2issuerAndSerial cert) = Inr (marshalRaw rid)"
    "recipientIdentifierMatchesCertificate rid (Some other) =
      Inr (certSerialNumber other = certSerialNumber cert \<and> RawIssuer other = RawIssuer cert)"
proof -
  let ?ias = "cert2issuerAndSerial cert"
  note name = iasNorm_cert [OF assms(1)]
  have m: "marshalIAS ?ias = Inr (tlv 0 True 16 (RawIssuer cert @ marshalInt (SerialNumber ?ias)))" (is "_ = Inr ?der")
    using name(2) by (simp add: marshalIAS_def marshalSequence_def)
  with assms(2) have raw: "parseRaw None ?der = Inr (rid, [])"
    by (simp add: recipientIdentifierForCertificate_def marshalRecipientInfo_def unmarshalAll_Inr)
  then have full: "rvFullBytes rid = ?der" "?der \<noteq> []"
    by (auto simp: parseRaw_def parseField_def parseValue_def orDefault_def rawContent_def split: if_splits
        dest: parseTagAndLength_shorter)
  then have der: "marshalRaw rid = ?der" by (simp add: marshalRaw_def)
  with assms(3) have len: "length ?der < 2 ^ 31" by simp
  note el = element_tlv [OF _ _ length_body [OF len], where cls = 0 and tag = 16 and compound = True, simplified]
  have all: "element (\<lambda>_. True) ?der" "element (universal 16 True) ?der" using el(1) by (simp_all add: universal_def)
  from raw parseRaw_element [OF all(1), of None "[]"] have rid: "rid = rawElement ?der" by simp
  then show "rid = rawElement (marshalRaw rid)" "element (universal 16 True) (marshalRaw rid)"
    "marshalIAS ?ias = Inr (marshalRaw rid)" using der all m by simp_all
  have "rvClass rid = 0" "rvTag rid = 16" using rid el(3) by (simp_all add: rawElement_def)
  moreover have "parseIAS ?der = Inr (iasNorm ?ias, [])"
    using ias_dec_enc [OF _ m len, of "[]"] assms(1) name(2) by simp
  ultimately show "recipientIdentifierMatchesCertificate rid (Some other) =
      Inr (certSerialNumber other = certSerialNumber cert \<and> RawIssuer other = RawIssuer cert)"
    using full(1) match_iasNorm [OF assms(1), of other]
    by (simp add: recipientIdentifierMatchesCertificate_def unmarshalAll_Inr [THEN iffD2])
qed

lemma parseRaw_whole: "parseRaw dflt bs = Inr (rv, []) \<Longrightarrow> bs \<noteq> [] \<Longrightarrow> element (\<lambda>_. True) bs \<and> rv = rawElement bs"
  by (auto simp: parseRaw_def parseField_def parseValue_def rawContent_def rawElement_def element_def
      elementHeader_def elementBody_def split: if_splits)

text \<open>What \<open>makeKEMRecipientInfo\<close> builds.\<close>

lemma makeKEM_steps:
  assumes "makeKEMRecipientInfo C P cea contentKey (Some cert) ent = Inr (raw, ent')"
  obtains kem pub s c kek ek rid info kemDER ori where
    "certificateKEMKey P cert = Some (kem, pub)" "mlkem_Encapsulate P kem pub ent = Inr ((s, c), ent')"
    "deriveKEMKey P s (algOnly OIDKeyWrapAES256) mlKEMKEKLength None = Inr kek"
    "aesKeyWrap C kek contentKey = Inr ek" "recipientIdentifierForCertificate cert = Inr rid"
    "info = \<lparr>kemVersion = 0, kemRecipientID = rid, kemKEM = algOnly (kemOID kem), kemCiphertext = c,
      kemKDF = algOnly OIDKDFHKDFSHA256, kemKEKLength = mlKEMKEKLength, kemUKM = None,
      kemWrap = algOnly OIDKeyWrapAES256, kemEncryptedKey = ek\<rparr>"
    "marshalKEM info = Inr kemDER"
    "marshalORI \<lparr>oriType = OIDOtherRecipientInfoKEM, oriValue = rawFull kemDER\<rparr> = Inr ori"
    "element (\<lambda>_. True) ori" "raw = rawOf 2 4 True (elementBody ori)"
proof -
  from assms obtain oid s c where enc: "encapsulateForCertificate P cert ent = Inr ((oid, s, c), ent')"
    by (auto simp: makeKEMRecipientInfo_def Let_def split: if_splits)
  from enc obtain kem pub where kem: "certificateKEMKey P cert = Some (kem, pub)" "oid = kemOID kem"
    "mlkem_Encapsulate P kem pub ent = Inr ((s, c), ent')" by (rule encapsulate_key)
  from assms enc obtain kek ek rid kemDER where
    steps: "deriveKEMKey P s (algOnly OIDKeyWrapAES256) mlKEMKEKLength None = Inr kek"
      "aesKeyWrap C kek contentKey = Inr ek" "recipientIdentifierForCertificate cert = Inr rid"
      "marshalKEM \<lparr>kemVersion = 0, kemRecipientID = rid, kemKEM = algOnly oid, kemCiphertext = c,
        kemKDF = algOnly OIDKDFHKDFSHA256, kemKEKLength = mlKEMKEKLength, kemUKM = None,
        kemWrap = algOnly OIDKeyWrapAES256, kemEncryptedKey = ek\<rparr> = Inr kemDER"
    and raw: "marshalOtherRecipientInfo OIDOtherRecipientInfoKEM kemDER = Inr raw"
    by (auto simp: makeKEMRecipientInfo_def Let_def split: if_splits)
  from raw obtain ori sq where ori: "marshalORI \<lparr>oriType = OIDOtherRecipientInfoKEM, oriValue = rawFull kemDER\<rparr> = Inr ori"
    and sq: "parseRaw None ori = Inr (sq, [])" "raw = rawOf 2 4 True (rvBytes sq)"
    by (auto simp: marshalOtherRecipientInfo_def marshalRecipientInfo_def unmarshalAll_Inr)
  have "ori \<noteq> []" using ori by (auto simp: marshalORI_def elim!: marshalSequence_InrE)
  with sq parseRaw_whole [of None ori sq] have "element (\<lambda>_. True) ori" "raw = rawOf 2 4 True (elementBody ori)"
    by (simp_all add: rawElement_def)
  with kem steps ori that show thesis by blast
qed

text \<open>
  How a decoder treats a written recipient: for another identity it is passed over, for the same
  one it is opened, and the content key comes out if the decapsulation key belongs to the
  certificate's key.
\<close>

definition same_recipient :: "Certificate \<Rightarrow> Certificate \<Rightarrow> bool" where
  "same_recipient cert other \<longleftrightarrow>
     certSerialNumber cert = certSerialNumber other \<and> RawIssuer cert = RawIssuer other"

definition kem_reads :: "crypto \<Rightarrow> pke \<Rightarrow> bytes \<Rightarrow> Certificate \<Rightarrow> RawValue \<Rightarrow> bool" where
  "kem_reads C P contentKey cert r \<longleftrightarrow> rvClass r = 2 \<and> rvTag r = 4 \<and> (\<exists>info.
     (\<forall>expected decapsulate other rest. decryptKEMRecipients C P expected decapsulate (r # rest) (Some other) =
        (if same_recipient other cert then openKEMRecipient C P expected decapsulate info
         else decryptKEMRecipients C P expected decapsulate rest (Some other))) \<and>
     (\<forall>kem pub decapsulate. certificateKEMKey P cert = Some (kem, pub) \<longrightarrow>
        (\<forall>s c e e'. mlkem_Encapsulate P kem pub e = Inr ((s, c), e') \<longrightarrow> decapsulate c = Inr s) \<longrightarrow>
        openKEMRecipient C P (kemOID kem) decapsulate info = Inr contentKey))"

lemma kem_recipient_read:
  assumes make: "makeKEMRecipientInfo C P cea contentKey (Some cert) ent = Inr (raw, ent')"
    and C: "crypto_ok C" and name: "element (\<lambda>_. True) (RawIssuer cert)" and len: "length (marshalRaw raw) < 2 ^ 31"
  shows "kem_reads C P contentKey cert (rawElement (marshalRaw raw))" "element (\<lambda>_. True) (marshalRaw raw)"
proof -
  from make obtain kem pub s c kek ek rid info kemDER ori where
    key: "certificateKEMKey P cert = Some (kem, pub)" and steps: "mlkem_Encapsulate P kem pub ent = Inr ((s, c), ent')"
    "deriveKEMKey P s (algOnly OIDKeyWrapAES256) mlKEMKEKLength None = Inr kek"
    "aesKeyWrap C kek contentKey = Inr ek" "recipientIdentifierForCertificate cert = Inr rid"
    and info: "info = \<lparr>kemVersion = 0, kemRecipientID = rid, kemKEM = algOnly (kemOID kem), kemCiphertext = c,
      kemKDF = algOnly OIDKDFHKDFSHA256, kemKEKLength = mlKEMKEKLength, kemUKM = None,
      kemWrap = algOnly OIDKeyWrapAES256, kemEncryptedKey = ek\<rparr>"
    and kemDER: "marshalKEM info = Inr kemDER"
    and ori: "marshalORI \<lparr>oriType = OIDOtherRecipientInfoKEM, oriValue = rawFull kemDER\<rparr> = Inr ori"
    and el: "element (\<lambda>_. True) ori" and raw: "raw = rawOf 2 4 True (elementBody ori)"
    by (auto elim!: makeKEM_steps)
  obtain kb where kb: "kemDER = tlv 0 True 16 kb"
    using kemDER by (auto simp: marshalKEM_def elim!: marshalSequence_InrE)
  then have full: "marshalRaw (rawFull kemDER) = kemDER" by (simp add: marshalRaw_def rawFull_def)
  from ori obtain t where ori_eq: "ori = tlv 0 True 16 (t @ kemDER)"
    by (auto simp: marshalORI_def marshalSequence_def full)
  from element_tlv_small [OF el [unfolded ori_eq]] have body: "length (t @ kemDER) < 2 ^ 31" by simp
  have raw_eq: "marshalRaw raw = tlv 2 True 4 (t @ kemDER)"
    using raw element_tlv(2) [OF _ _ body, where cls = 0 and tag = 16 and compound = True] by (simp add: ori_eq)
  have read: "element (\<lambda>_. True) (marshalRaw raw)" "rvClass (rawElement (marshalRaw raw)) = 2"
    "rvTag (rawElement (marshalRaw raw)) = 4" "rvIsCompound (rawElement (marshalRaw raw))"
    "rvBytes (rawElement (marshalRaw raw)) = t @ kemDER"
    using element_tlv [OF _ _ body, where cls = 2 and tag = 4 and compound = True] unfolding raw_eq by (simp_all add: rawElement_def)
  have ori_len: "length ori < 2 ^ 31" using len unfolding raw_eq ori_eq by (simp add: length_tlv_small)
  have der_len: "length kemDER < 2 ^ 31" using body by simp
  have kel: "element (\<lambda>_. True) kemDER" using length_body [OF der_len [unfolded kb]] by (simp add: kb element_tlv)
  have other: "parseOtherRecipientInfo (rawElement (marshalRaw raw)) =
      Inr \<lparr>oriType = OIDOtherRecipientInfoKEM, oriValue = rawElement kemDER\<rparr>"
    using ori_dec_enc [OF _ kel ori ori_len, of "[]"] read
    by (simp add: parseOtherRecipientInfo_def unmarshalAll_Inr flip: ori_eq)
  have "length (marshalRaw rid) \<le> length kemDER"
    using kemDER by (auto simp: marshalKEM_def marshalSequence_def info length_tlv)
  with der_len have rid_len: "length (marshalRaw rid) < 2 ^ 31" by simp
  note rid = recipientIdentifier_shape [OF name steps(4) rid_len]
  have "kem_ok info"
    using element_mono [OF rid(2)] by (cases kem) (auto simp: kem_ok_def info mlKEMKEKLength_def)
  from kem_dec_enc [OF this kemDER der_len, of "[]"] have "parseKEM kemDER = Inr (kemNorm info, [])" by simp
  moreover have "kemNorm info = info" using rid(1) by (simp add: kemNorm_def info)
  ultimately have parse: "unmarshalAll MalformedKEMRecipient KEMTrailingData parseKEM (rvFullBytes (rawElement kemDER)) = Inr info"
    by (simp add: unmarshalAll_Inr rawElement_def)
  have matches: "recipientIdentifierMatchesCertificate (kemRecipientID info) (Some other) =
      Inr (same_recipient other cert)" for other
    using rid(4) by (simp add: info same_recipient_def)
  have unwrap: "aesKeyUnwrap C kek ek = Inr contentKey"
  proof -
    from steps(3) have "length kek \<in> {16, 24, 32}"
      by (auto simp: aesKeyWrap_def aes_NewCipher_def split: if_splits)
    with C steps(3) show ?thesis using aes_kw.unwrap_wrap [of "(C, kek)" contentKey ek] by (simp add: aes_key_ok_def)
  qed
  have opened: "openKEMRecipient C P (kemOID kem) decapsulate info = Inr contentKey"
    if pair: "\<forall>s c e e'. mlkem_Encapsulate P kem pub e = Inr ((s, c), e') \<longrightarrow> decapsulate c = Inr s" for decapsulate
  proof -
    have "decapsulate c = Inr s" using pair steps(1) by blast
    with steps(2) unwrap show ?thesis by (simp add: openKEMRecipient_def info mlKEMKEKLength_def wrapped_def)
  qed
  have "decryptKEMRecipients C P expected decapsulate (rawElement (marshalRaw raw) # rest) (Some cert') =
      (if same_recipient cert' cert then openKEMRecipient C P expected decapsulate info
       else decryptKEMRecipients C P expected decapsulate rest (Some cert'))" for expected decapsulate cert' rest
    using read other parse matches [of cert'] by simp
  with read opened key show "kem_reads C P contentKey cert (rawElement (marshalRaw raw))"
    unfolding kem_reads_def by auto
  show "element (\<lambda>_. True) (marshalRaw raw)" by (rule read(1))
qed

section \<open>DER\<close>

lemma der_items_algOnly:
  assumes "Inr bs = marshalAlg (algOnly oid)" "length bs < 2 ^ 31"
  shows "der_items (Suc (Suc k)) bs"
  using assms(1) [symmetric] assms(2) by (intro der_items_single, rule der_item_alg) (simp_all add: algOnly_def)

text \<open>The parts of a SEQUENCE, with the bound as the simplifier leaves it.\<close>

lemmas der_parts = der_items_Nil der_items_single [OF der_item_marshalInt, simplified]
  der_items_single [OF der_item_marshalOctets, simplified] der_items_algOnly [simplified]

lemma der_item_marshalIAS:
  assumes "marshalIAS ias = Inr bs" "length bs < 2 ^ 31" "der_item (Suc k) (marshalRaw (IssuerName ias))"
  shows "der_item (Suc (Suc k)) bs"
  using assms(1) [unfolded marshalIAS_def] assms(2)
  by (rule der_item_marshalSequence) (auto intro: der_parts der_items_single assms(3))

lemma der_item_kem_recipient:
  assumes make: "makeKEMRecipientInfo C P cea contentKey (Some cert) ent = Inr (raw, ent')"
    and name: "name_ok k (RawIssuer cert)" and len: "length (marshalRaw raw) < 2 ^ 31"
  shows "der_item (Suc (Suc (Suc (Suc k)))) (marshalRaw raw)"
proof -
  from make obtain kem c ek rid info kemDER ori where
    rid: "recipientIdentifierForCertificate cert = Inr rid"
    and info: "info = \<lparr>kemVersion = 0, kemRecipientID = rid, kemKEM = algOnly (kemOID kem), kemCiphertext = c,
      kemKDF = algOnly OIDKDFHKDFSHA256, kemKEKLength = mlKEMKEKLength, kemUKM = None,
      kemWrap = algOnly OIDKeyWrapAES256, kemEncryptedKey = ek\<rparr>"
    and kemDER: "marshalKEM info = Inr kemDER"
    and ori: "marshalORI \<lparr>oriType = OIDOtherRecipientInfoKEM, oriValue = rawFull kemDER\<rparr> = Inr ori"
    and el: "element (\<lambda>_. True) ori" and raw: "raw = rawOf 2 4 True (elementBody ori)"
    by (auto elim!: makeKEM_steps)
  obtain kb where "kemDER = tlv 0 True 16 kb" using kemDER by (auto simp: marshalKEM_def elim!: marshalSequence_InrE)
  then have full: "marshalRaw (rawFull kemDER) = kemDER" by (simp add: marshalRaw_def rawFull_def)
  from ori obtain t where t: "marshalOID OIDOtherRecipientInfoKEM = Inr t" "ori = tlv 0 True 16 (t @ kemDER)"
    by (auto simp: marshalORI_def marshalSequence_def full)
  from element_tlv_small [OF el [unfolded t(2)]] have body: "length (t @ kemDER) < 2 ^ 31" by simp
  then have small: "length t < 2 ^ 31" "length kemDER < 2 ^ 31" by simp_all
  have raw_eq: "marshalRaw raw = tlv 2 True 4 (t @ kemDER)"
    using raw element_tlv(2) [OF _ _ body, where cls = 0 and tag = 16 and compound = True] by (simp add: t(2))
  have "length (marshalRaw rid) \<le> length kemDER"
    using kemDER by (auto simp: marshalKEM_def marshalSequence_def info length_tlv)
  with small have rid_len: "length (marshalRaw rid) < 2 ^ 31" by simp
  have nameDER: "der_item (Suc k) (marshalRaw (IssuerName (cert2issuerAndSerial cert)))"
    "element (\<lambda>_. True) (RawIssuer cert)"
    using name iasNorm_cert(2) [of cert] by (simp_all add: name_ok_def)
  from recipientIdentifier_shape(3) [OF nameDER(2) rid rid_len] rid_len nameDER(1)
  have ridDER: "der_item (Suc (Suc k)) (marshalRaw rid)" by (rule der_item_marshalIAS)
  have "der_item (Suc (Suc (Suc k))) kemDER"
    using kemDER [unfolded marshalKEM_def] small(2)
    by (rule der_item_marshalSequence)
      (auto simp: info marshalUKM_def intro: der_parts der_items_single [OF ridDER])
  then have "der_items (Suc (Suc (Suc k))) (t @ kemDER)"
    by (intro der_items_append der_items_single der_item_marshalOID [OF t(1) small(1)])
  with body show ?thesis unfolding raw_eq by (intro der_item_constructed) simp_all
qed

end
