(* ===== verification/SignedStructures.thy ===== *)
theory SignedStructures
  imports Certificates
begin

text \<open>
  The structures of signed data (\<open>sign.go\<close>): attributes, signer infos and \<open>signedData\<close>, their
  decoders and encoders, and the laws between them. Certificate revocation lists are values of
  \<open>crypto/x509/pkix\<close>, kept as their encoding; \<open>x509\<close> holds what the package calls of that library.
\<close>

section \<open>The library\<close>

type_synonym CertificateList = bytes

text \<open>
  \<open>x509.VerifyOptions\<close>. A pool is the list of its certificates; a time is an integer, 0 for the zero time.
\<close>

record VerifyOptions =
  Roots :: "Certificate list option"
  Intermediates :: "Certificate list"
  CurrentTime :: int
  KeyUsages :: "nat list option"

record x509 =
  x509_ParseCertificates :: "bytes \<Rightarrow> Certificate list result"
  unmarshalCRL :: "CertificateList decoder"
  marshalCRL :: "CertificateList \<Rightarrow> bytes result"
  CheckSignature :: "Certificate \<Rightarrow> SignatureAlgorithm \<Rightarrow> bytes \<Rightarrow> bytes \<Rightarrow> unit result"
  CheckSignatureFrom :: "Certificate \<Rightarrow> Certificate \<Rightarrow> unit result"
  cert_Verify :: "Certificate \<Rightarrow> VerifyOptions \<Rightarrow> unit result"

text \<open>
  A toy instance for witnesses: every certificate list is one certificate, and a signature is the
  length of what is signed.
\<close>

definition toy_certificate :: "PublicKey \<Rightarrow> int \<Rightarrow> Certificate" where
  "toy_certificate key serial = \<lparr>certRaw = [48, 0], RawIssuer = [48, 0], RawSubject = [48, 0],
     certSerialNumber = serial, certPublicKey = key, RawSubjectPublicKeyInfo = [], certKeyUsage = 0, SubjectKeyId = [],
     NotBefore = 0, NotAfter = 100\<rparr>"

definition toy_x509 :: x509 where
  "toy_x509 = \<lparr>x509_ParseCertificates = \<lambda>bs. Inr (if bs = [] then [] else [toy_certificate (RSAPublicKey [1]) 1]),
     unmarshalCRL = \<lambda>_. Inl (ExternalError 0), marshalCRL = \<lambda>_. Inl (ExternalError 0),
     CheckSignature = \<lambda>_ _ data signature.
       if signature = [word_of_nat (length data)] then Inr () else Inl (ExternalError 1),
     CheckSignatureFrom = \<lambda>_ _. Inr (), cert_Verify = \<lambda>_ _. Inr ()\<rparr>"

section \<open>The structures\<close>

record attribute =
  attrType :: oid
  attrValue :: RawValue

definition attributeFields :: "attribute decoder" where
  "attributeFields bs = and_then (parseOID bs) (\<lambda>(t, bs). and_then (parseRaw None bs) (\<lambda>(v, bs).
     Inr (\<lparr>attrType = t, attrValue = v\<rparr>, bs)))"

definition parseAttribute :: "attribute decoder" where
  "parseAttribute = parseStruct attributeFields None"

definition marshalAttribute :: "attribute \<Rightarrow> bytes result" where
  "marshalAttribute a = marshalSequence [marshalOID (attrType a), Inr (marshalRaw (attrValue a))]"

text \<open>\<open>[]attribute\<close> with \<open>optional,omitempty,tag\<close>: a SEQUENCE OF under a context tag, not sorted.\<close>

definition parseAttributes :: "nat \<Rightarrow> attribute list decoder" where
  "parseAttributes tag = parseField (implicit tag True) (sequenceOf (universal 16 True) parseAttribute) (Some [])"

definition marshalTaggedAttributes :: "nat \<Rightarrow> attribute list \<Rightarrow> bytes result" where
  "marshalTaggedAttributes tag attrs =
     (if attrs = [] then Inr []
      else and_then (allResults (map marshalAttribute attrs)) (\<lambda>ps. Inr (tlv 2 True tag (concat ps))))"

record signerInfo =
  siVersion :: int
  siIssuerAndSerialNumber :: issuerAndSerial
  siDigestAlgorithm :: AlgorithmIdentifier
  siAuthenticatedAttributes :: "attribute list"
  siDigestEncryptionAlgorithm :: AlgorithmIdentifier
  siEncryptedDigest :: bytes
  siUnauthenticatedAttributes :: "attribute list"

definition signerInfoFields :: "signerInfo decoder" where
  "signerInfoFields bs =
     and_then (parseInt bs) (\<lambda>(v, bs). and_then (parseIAS bs) (\<lambda>(ias, bs).
     and_then (parseAlg bs) (\<lambda>(digest, bs). and_then (parseAttributes 0 bs) (\<lambda>(auth, bs).
     and_then (parseAlg bs) (\<lambda>(sig, bs). and_then (parseOctets bs) (\<lambda>(enc, bs).
     and_then (parseAttributes 1 bs) (\<lambda>(unauth, bs).
       Inr (\<lparr>siVersion = v, siIssuerAndSerialNumber = ias, siDigestAlgorithm = digest,
         siAuthenticatedAttributes = auth, siDigestEncryptionAlgorithm = sig, siEncryptedDigest = enc,
         siUnauthenticatedAttributes = unauth\<rparr>, bs))))))))"

definition parseSignerInfo :: "signerInfo decoder" where
  "parseSignerInfo = parseStruct signerInfoFields None"

text \<open>A default without \<open>optional\<close> changes nothing: the version is always written and read.\<close>

definition marshalSignerInfo :: "signerInfo \<Rightarrow> bytes result" where
  "marshalSignerInfo si = marshalSequence
     [Inr (marshalInt (siVersion si)), marshalIAS (siIssuerAndSerialNumber si), marshalAlg (siDigestAlgorithm si),
      marshalTaggedAttributes 0 (siAuthenticatedAttributes si), marshalAlg (siDigestEncryptionAlgorithm si),
      Inr (marshalOctets (siEncryptedDigest si)), marshalTaggedAttributes 1 (siUnauthenticatedAttributes si)]"

text \<open>
  \<open>rawCertificates\<close> is a structure that holds its own encoding (\<open>RawContent\<close>), empty when absent;
  writing it strips the header and puts the header of the field.
\<close>

definition parseRawCertificates :: "bytes decoder" where
  "parseRawCertificates = parseField (implicit 0 True) (\<lambda>_ _ full. Inr full) (Some [])"

definition stripTagAndLength :: "bytes \<Rightarrow> bytes" where
  "stripTagAndLength bs = (case parseTagAndLength bs of Inl _ \<Rightarrow> bs | Inr (_, rest) \<Rightarrow> rest)"

definition marshalRawCertificates :: "bytes \<Rightarrow> bytes" where
  "marshalRawCertificates raw = (if raw = [] then [] else tlv 2 True 0 (stripTagAndLength raw))"

text \<open>The optional list of CRLs; \<open>None\<close> is a nil slice and not written, an empty one is.\<close>

definition parseCRLs :: "x509 \<Rightarrow> CertificateList list option decoder" where
  "parseCRLs X = parseField (implicit 1 True)
     (\<lambda>h inner full. and_then (sequenceOf (universal 16 True) (unmarshalCRL X) h inner full) (\<lambda>crls. Inr (Some crls)))
     (Some None)"

definition marshalCRLs :: "x509 \<Rightarrow> CertificateList list option \<Rightarrow> bytes result" where
  "marshalCRLs X crls = (case crls of None \<Rightarrow> Inr []
     | Some crls \<Rightarrow> and_then (allResults (map (marshalCRL X) crls)) (\<lambda>ps. Inr (tlv 2 True 1 (concat ps))))"

record signedData =
  sdVersion :: int
  sdDigestAlgorithmIdentifiers :: "AlgorithmIdentifier list"
  sdContentInfo :: contentInfo
  sdCertificates :: bytes
  sdCRLs :: "CertificateList list option"
  sdSignerInfos :: "signerInfo list"

definition signedDataFields :: "x509 \<Rightarrow> signedData decoder" where
  "signedDataFields X bs =
     and_then (parseInt bs) (\<lambda>(v, bs). and_then (parseSetOf (universal 16 True) parseAlg bs) (\<lambda>(algs, bs).
     and_then (parseContentInfo bs) (\<lambda>(ci, bs). and_then (parseRawCertificates bs) (\<lambda>(certs, bs).
     and_then (parseCRLs X bs) (\<lambda>(crls, bs).
     and_then (parseSetOf (universal 16 True) parseSignerInfo bs) (\<lambda>(sis, bs).
       Inr (\<lparr>sdVersion = v, sdDigestAlgorithmIdentifiers = algs, sdContentInfo = ci, sdCertificates = certs,
         sdCRLs = crls, sdSignerInfos = sis\<rparr>, bs)))))))"

definition parseSD :: "x509 \<Rightarrow> signedData decoder" where
  "parseSD X = parseStruct (signedDataFields X) None"

definition marshalSD :: "x509 \<Rightarrow> signedData \<Rightarrow> bytes result" where
  "marshalSD X sd = marshalSequence
     [Inr (marshalInt (sdVersion sd)), marshalSetOf (map marshalAlg (sdDigestAlgorithmIdentifiers sd)),
      marshalContentInfo (sdContentInfo sd), Inr (marshalRawCertificates (sdCertificates sd)),
      marshalCRLs X (sdCRLs sd), marshalSetOf (map marshalSignerInfo (sdSignerInfos sd))]"

section \<open>Lists of encoded values\<close>

lemma allResults_map:
  "allResults (map f xs) = Inr ps \<longleftrightarrow> ps = map (projr \<circ> f) xs \<and> (\<forall>x \<in> set xs. \<exists>e. f x = Inr e)"
proof (induction xs arbitrary: ps)
  case (Cons x xs)
  show ?case by (cases "f x") (auto simp: and_then_Inr_iff Cons.IH)
qed auto

lemma allResults_mapD:
  assumes "allResults (map f xs) = Inr ps"
  shows "ps = map (projr \<circ> f) xs" "\<forall>x \<in> set xs. f x = Inr (projr (f x))"
  using assms unfolding allResults_map by (blast, fastforce)

lemma length_concat_part: "length (concat ps) < n \<Longrightarrow> p \<in> set ps \<Longrightarrow> length p < (n :: nat)"
  by (induction ps) auto

text \<open>What one element promises, for every list of them.\<close>

definition element_law :: "('a \<Rightarrow> bytes result) \<Rightarrow> 'a decoder \<Rightarrow> ('a \<Rightarrow> 'a) \<Rightarrow> 'a \<Rightarrow> bool" where
  "element_law enc dec norm v \<longleftrightarrow> (\<forall>e. enc v = Inr e \<longrightarrow> length e < 2 ^ 31 \<longrightarrow>
     element (universal 16 True) e \<and> (\<forall>rest. dec (e @ rest) = Inr (norm v, rest)))"

lemma element_law_sequence:
  assumes "\<And>e. enc v = Inr e \<Longrightarrow> \<exists>body. e = tlv 0 True 16 body"
    and "\<And>e rest. enc v = Inr e \<Longrightarrow> length e < 2 ^ 31 \<Longrightarrow> dec (e @ rest) = Inr (norm v, rest)"
  shows "element_law enc dec norm v"
proof (unfold element_law_def, intro allI impI conjI)
  fix e rest
  assume e: "enc v = Inr e" "length e < 2 ^ 31"
  from assms(1) [OF e(1)] obtain body where body: "e = tlv 0 True 16 body" by blast
  from length_body [OF e(2) [unfolded body]] show "element (universal 16 True) e"
    by (simp add: body element_tlv universal_def)
  show "dec (e @ rest) = Inr (norm v, rest)" by (rule assms(2) [OF e])
qed

lemma element_lawD:
  assumes "element_law enc dec norm v" "enc v = Inr e" "length e < 2 ^ 31"
  shows "element (universal 16 True) e" "dec (e @ rest) = Inr (norm v, rest)"
  using assms by (simp_all add: element_law_def)

lemma sequenceOf_law:
  assumes "\<forall>v \<in> set vs. element_law enc dec norm v" "allResults (map enc vs) = Inr ps" "length (concat ps) < 2 ^ 31"
  shows "sequenceOf (universal 16 True) dec h (concat ps) full = Inr (map norm vs)"
proof -
  let ?e = "projr \<circ> enc"
  note ps = allResults_mapD(1) [OF assms(2)] and enc = allResults_mapD(2) [OF assms(2)]
  have law: "element (universal 16 True) (?e v)" "dec (?e v @ r) = Inr (norm v, r)" if v: "v \<in> set vs" for v r
  proof -
    have "?e v \<in> set (map ?e vs)" using v by simp
    with assms(3) have "length (?e v) < 2 ^ 31" unfolding ps by (rule length_concat_part)
    with element_lawD [OF bspec [OF assms(1) v]] bspec [OF enc v]
    show "element (universal 16 True) (?e v)" "dec (?e v @ r) = Inr (norm v, r)" by simp_all
  qed
  then show ?thesis unfolding ps by (intro sequenceOf_map)
qed

lemma setOf_law:
  assumes "\<forall>v \<in> set vs. element_law enc dec norm v" "marshalSetOf (map enc vs) = Inr bs" "length bs < 2 ^ 31"
  shows "parseSetOf (universal 16 True) dec (bs @ rest) = Inr (map norm (sort_key (projr \<circ> enc) vs), rest)"
proof -
  let ?vs = "sort_key (projr \<circ> enc) vs"
  from assms(2) have bs: "bs = tlv 0 True 17 (concat (map (projr \<circ> enc) ?vs))"
    and "\<forall>v \<in> set vs. \<exists>e. enc v = Inr e"
    by (auto simp: marshalSetOf_def setBody_def allResults_map sort_map)
  then have all: "allResults (map enc ?vs) = Inr (map (projr \<circ> enc) ?vs)"
    by (simp only: allResults_map set_sort simp_thms)
  note len = length_body [OF assms(3) [unfolded bs]]
  have "sequenceOf (universal 16 True) dec h (concat (map (projr \<circ> enc) ?vs)) full = Inr (map norm ?vs)" for h full
    using assms(1) by (intro sequenceOf_law [OF _ all len]) simp
  with len show ?thesis
    unfolding bs parseSetOf_def by (simp add: parseField_tlv [OF _ _ _ refl] universal_def)
qed

end
