(* ===== verification/SignedLaws.thy ===== *)
theory SignedLaws
  imports SignedStructures
begin

text \<open>
  The laws of the signed-data structures: what is written is read back, up to the order of the
  SETs and the \<open>FullBytes\<close> of raw values, and what is written is DER.
\<close>

section \<open>Attributes\<close>

definition attr_ok :: "attribute \<Rightarrow> bool" where
  "attr_ok a \<longleftrightarrow> oid_ok (attrType a) \<and> element (\<lambda>_. True) (marshalRaw (attrValue a))"

definition attrNorm :: "attribute \<Rightarrow> attribute" where
  "attrNorm a = \<lparr>attrType = attrType a, attrValue = rawElement (marshalRaw (attrValue a))\<rparr>"

lemma marshal_attrNorm: "attr_ok a \<Longrightarrow> marshalAttribute (attrNorm a) = marshalAttribute a"
  by (simp add: marshalAttribute_def attrNorm_def attr_ok_def marshal_rawElement [of "\<lambda>_. True"])

lemma attr_law:
  assumes "attr_ok a"
  shows "element_law marshalAttribute parseAttribute attrNorm a"
proof (rule element_law_sequence)
  fix e
  assume "marshalAttribute a = Inr e"
  then show "\<exists>body. e = tlv 0 True 16 body" by (auto simp: marshalAttribute_def elim!: marshalSequence_InrE)
next
  fix e rest
  assume e: "marshalAttribute a = Inr e" "length e < 2 ^ 31"
  let ?v = "marshalRaw (attrValue a)"
  from e(1) obtain t where t: "marshalOID (attrType a) = Inr t" and body: "e = tlv 0 True 16 (t @ ?v)"
    by (auto simp: marshalAttribute_def marshalSequence_def)
  from length_body [OF e(2) [unfolded body]] have "length t < 2 ^ 31" by simp
  with oid_dec_enc [OF _ t, of ?v] parseRaw_element [of ?v None "[]"] assms
  have "attributeFields (t @ ?v) = Inr (attrNorm a, [])" by (simp add: attributeFields_def attrNorm_def attr_ok_def)
  with e(2) show "parseAttribute (e @ rest) = Inr (attrNorm a, rest)"
    unfolding body parseAttribute_def by (intro parseStruct_parts)
qed

lemma alg_law:
  assumes "oid_ok (algOID a)" "raw_ok (algParameters a)"
  shows "element_law marshalAlg parseAlg algNorm a"
proof (rule element_law_sequence)
  fix e
  assume "marshalAlg a = Inr e"
  then show "\<exists>body. e = tlv 0 True 16 body" by (auto simp: marshalAlg_def elim!: marshalSequence_InrE)
qed (rule alg_dec_enc [OF assms])

text \<open>A field that is missing leaves what follows: another tag, or nothing.\<close>

lemma parseField_absent:
  assumes "cls < 4" "tag < 2 ^ 31" "length body < 2 ^ 31" "\<And>len. \<not> matches \<lparr>hClass = cls, hTag = tag, hLen = len, hCompound = compound\<rparr>"
  shows "parseField matches content (Some d) (tlv cls compound tag body @ rest) = Inr (d, tlv cls compound tag body @ rest)"
  using assms by (simp add: parseField_tlv [OF _ _ _ refl] orDefault_def)

lemma parseField_end [simp]: "parseField matches content (Some d) [] = Inr (d, [])"
  by (simp add: parseField_def orDefault_def)

lemma attributes_enc:
  assumes "\<forall>a \<in> set attrs. attr_ok a" "marshalTaggedAttributes tag attrs = Inr bs" "length bs < 2 ^ 31" "tag < 2 ^ 31"
    and "parseAttributes tag next = Inr ([], next)"
  shows "parseAttributes tag (bs @ next) = Inr (map attrNorm attrs, next)"
proof (cases "attrs = []")
  case True
  with assms(2,5) show ?thesis by (simp add: marshalTaggedAttributes_def)
next
  case False
  with assms(2) obtain ps where ps: "allResults (map marshalAttribute attrs) = Inr ps" "bs = tlv 2 True tag (concat ps)"
    by (auto simp: marshalTaggedAttributes_def)
  note len = length_body [OF assms(3) [unfolded ps(2)]]
  have "\<forall>a \<in> set attrs. element_law marshalAttribute parseAttribute attrNorm a" using assms(1) attr_law by blast
  from sequenceOf_law [OF this ps(1) len] len assms(4) show ?thesis
    by (simp add: parseAttributes_def ps(2) parseField_tlv [OF _ _ _ refl] implicit_def)
qed

section \<open>Signer infos\<close>

definition si_ok :: "signerInfo \<Rightarrow> bool" where
  "si_ok si \<longleftrightarrow> -(2 ^ 63) \<le> siVersion si \<and> siVersion si < 2 ^ 63 \<and>
     element (\<lambda>_. True) (marshalRaw (IssuerName (siIssuerAndSerialNumber si))) \<and>
     oid_ok (algOID (siDigestAlgorithm si)) \<and> raw_ok (algParameters (siDigestAlgorithm si)) \<and>
     oid_ok (algOID (siDigestEncryptionAlgorithm si)) \<and> raw_ok (algParameters (siDigestEncryptionAlgorithm si)) \<and>
     (\<forall>a \<in> set (siAuthenticatedAttributes si). attr_ok a) \<and> (\<forall>a \<in> set (siUnauthenticatedAttributes si). attr_ok a)"

definition siNorm :: "signerInfo \<Rightarrow> signerInfo" where
  "siNorm si = \<lparr>siVersion = siVersion si, siIssuerAndSerialNumber = iasNorm (siIssuerAndSerialNumber si),
     siDigestAlgorithm = algNorm (siDigestAlgorithm si),
     siAuthenticatedAttributes = map attrNorm (siAuthenticatedAttributes si),
     siDigestEncryptionAlgorithm = algNorm (siDigestEncryptionAlgorithm si), siEncryptedDigest = siEncryptedDigest si,
     siUnauthenticatedAttributes = map attrNorm (siUnauthenticatedAttributes si)\<rparr>"

lemma si_law:
  assumes "si_ok si"
  shows "element_law marshalSignerInfo parseSignerInfo siNorm si"
proof (rule element_law_sequence)
  fix e
  assume "marshalSignerInfo si = Inr e"
  then show "\<exists>body. e = tlv 0 True 16 body" by (auto simp: marshalSignerInfo_def elim!: marshalSequence_InrE)
next
  fix e rest
  assume e: "marshalSignerInfo si = Inr e" "length e < 2 ^ 31"
  let ?v = "marshalInt (siVersion si)" and ?d = "marshalOctets (siEncryptedDigest si)"
  from e(1) obtain i h a s u where
    i: "marshalIAS (siIssuerAndSerialNumber si) = Inr i" and h: "marshalAlg (siDigestAlgorithm si) = Inr h"
    and a: "marshalTaggedAttributes 0 (siAuthenticatedAttributes si) = Inr a"
    and s: "marshalAlg (siDigestEncryptionAlgorithm si) = Inr s"
    and u: "marshalTaggedAttributes 1 (siUnauthenticatedAttributes si) = Inr u"
    and body: "e = tlv 0 True 16 (?v @ i @ h @ a @ s @ ?d @ u)"
    by (auto simp: marshalSignerInfo_def marshalSequence_def)
  from length_body [OF e(2) [unfolded body]] have len: "length i < 2 ^ 31" "length h < 2 ^ 31" "length a < 2 ^ 31"
    "length s < 2 ^ 31" "length ?d < 2 ^ 31" "length u < 2 ^ 31" by simp_all
  have "length (siEncryptedDigest si) < 2 ^ 31" using length_body [OF len(5) [unfolded marshalOctets_def]] .
  then have d: "parseOctets (?d @ r) = Inr (siEncryptedDigest si, r)" for r by (rule octets.dec_enc)
  have v: "parseInt (?v @ r) = Inr (siVersion si, r)" for r
    using assms by (intro int64.dec_enc) (simp add: si_ok_def)
  have ias: "parseIAS (i @ r) = Inr (iasNorm (siIssuerAndSerialNumber si), r)" for r
    using ias_dec_enc [OF _ i len(1)] assms by (simp add: si_ok_def)
  have alg: "parseAlg (h @ r) = Inr (algNorm (siDigestAlgorithm si), r)"
    "parseAlg (s @ r) = Inr (algNorm (siDigestEncryptionAlgorithm si), r)" for r
    using alg_dec_enc [OF _ _ h len(2)] alg_dec_enc [OF _ _ s len(4)] assms by (simp_all add: si_ok_def)
  from s obtain sb where sb: "s = tlv 0 True 16 sb" by (auto simp: marshalAlg_def elim!: marshalSequence_InrE)
  with length_body [of 0 True 16 sb] len(4) have "parseAttributes 0 (s @ ?d @ u) = Inr ([], s @ ?d @ u)"
    by (simp add: parseAttributes_def parseField_absent implicit_def)
  then have auth: "parseAttributes 0 (a @ s @ ?d @ u) = Inr (map attrNorm (siAuthenticatedAttributes si), s @ ?d @ u)"
    using assms by (intro attributes_enc [OF _ a len(3)]) (simp_all add: si_ok_def)
  have unauth: "parseAttributes 1 u = Inr (map attrNorm (siUnauthenticatedAttributes si), [])"
    using attributes_enc [OF _ u len(6), of "[]"] assms by (simp add: si_ok_def parseAttributes_def)
  have "signerInfoFields (?v @ i @ h @ a @ s @ ?d @ u) = Inr (siNorm si, [])"
    by (simp add: signerInfoFields_def v ias alg auth d unauth siNorm_def del: One_nat_def)
  with e(2) show "parseSignerInfo (e @ rest) = Inr (siNorm si, rest)"
    unfolding body parseSignerInfo_def by (intro parseStruct_parts)
qed

section \<open>Signed data\<close>

text \<open>Certificates as \<open>marshalCertificateBytes\<close> writes them, or none.\<close>

definition certs_ok :: "bytes \<Rightarrow> bool" where
  "certs_ok raw \<longleftrightarrow> raw = [] \<or> (\<exists>body. raw = tlv 2 True 0 body \<and> length body < 2 ^ 31)"

definition crls_ok :: "x509 \<Rightarrow> CertificateList list option \<Rightarrow> bool" where
  "crls_ok X crls \<longleftrightarrow> (\<forall>crl \<in> set (case crls of None \<Rightarrow> [] | Some cs \<Rightarrow> cs).
     element_law (marshalCRL X) (unmarshalCRL X) (\<lambda>c. c) crl)"

definition sd_ok :: "x509 \<Rightarrow> signedData \<Rightarrow> bool" where
  "sd_ok X sd \<longleftrightarrow> -(2 ^ 63) \<le> sdVersion sd \<and> sdVersion sd < 2 ^ 63 \<and>
     (\<forall>a \<in> set (sdDigestAlgorithmIdentifiers sd). oid_ok (algOID a) \<and> raw_ok (algParameters a)) \<and>
     contentInfo_ok (sdContentInfo sd) \<and> certs_ok (sdCertificates sd) \<and> crls_ok X (sdCRLs sd) \<and>
     (\<forall>si \<in> set (sdSignerInfos sd). si_ok si)"

definition sdNorm :: "signedData \<Rightarrow> signedData" where
  "sdNorm sd = \<lparr>sdVersion = sdVersion sd,
     sdDigestAlgorithmIdentifiers = map algNorm (sort_key (projr \<circ> marshalAlg) (sdDigestAlgorithmIdentifiers sd)),
     sdContentInfo = contentInfoNorm (sdContentInfo sd), sdCertificates = sdCertificates sd, sdCRLs = sdCRLs sd,
     sdSignerInfos = map siNorm (sort_key (projr \<circ> marshalSignerInfo) (sdSignerInfos sd))\<rparr>"

lemma marshal_certs: "certs_ok raw \<Longrightarrow> marshalRawCertificates raw = raw"
  by (auto simp: certs_ok_def marshalRawCertificates_def stripTagAndLength_def
      parse_tlv [where rest = "[]", simplified append_Nil2])

lemma certs_enc:
  assumes "certs_ok raw" "parseRawCertificates next = Inr ([], next)"
  shows "parseRawCertificates (marshalRawCertificates raw @ next) = Inr (raw, next)"
  using assms unfolding marshal_certs [OF assms(1)]
  by (auto simp: certs_ok_def parseRawCertificates_def parseField_tlv [OF _ _ _ refl] implicit_def)

lemma crls_enc:
  assumes "crls_ok X crls" "marshalCRLs X crls = Inr bs" "length bs < 2 ^ 31" "parseCRLs X next = Inr (None, next)"
  shows "parseCRLs X (bs @ next) = Inr (crls, next)"
proof (cases crls)
  case None
  with assms(2,4) show ?thesis by (simp add: marshalCRLs_def)
next
  case (Some cs)
  with assms(2) obtain ps where ps: "allResults (map (marshalCRL X) cs) = Inr ps" "bs = tlv 2 True 1 (concat ps)"
    by (auto simp: marshalCRLs_def)
  note len = length_body [OF assms(3) [unfolded ps(2)]]
  have "\<forall>c \<in> set cs. element_law (marshalCRL X) (unmarshalCRL X) (\<lambda>c. c) c" using assms(1) Some by (simp add: crls_ok_def)
  from sequenceOf_law [OF this ps(1) len] len show ?thesis
    by (simp add: parseCRLs_def ps(2) parseField_tlv [OF _ _ _ refl] implicit_def Some)
qed

text \<open>The CRLs are absent or tagged 1, the signers that follow are a SET: neither is tagged 0.\<close>

lemma not_certs:
  assumes "marshalCRLs X crls = Inr c" "length c < 2 ^ 31" "length body < 2 ^ 31"
  shows "parseRawCertificates (c @ tlv 0 True 17 body) = Inr ([], c @ tlv 0 True 17 body)"
proof (cases "c = []")
  case True
  with assms(3) show ?thesis
    using parseField_absent [of 0 17 body "implicit 0 True" True "\<lambda>_ _ full. Inr full" "[]" "[]"]
    by (simp add: parseRawCertificates_def implicit_def)
next
  case False
  with assms(1) obtain b where "c = tlv 2 True 1 b" by (auto simp: marshalCRLs_def split: option.splits)
  with assms(2) length_body [of 2 True 1 b] show ?thesis
    by (simp add: parseRawCertificates_def parseField_absent implicit_def)
qed

lemma sd_dec_enc:
  assumes ok: "sd_ok X sd" and "marshalSD X sd = Inr bs" and small: "length bs < 2 ^ 31"
  shows "parseSD X (bs @ rest) = Inr (sdNorm sd, rest)"
proof -
  let ?v = "marshalInt (sdVersion sd)" and ?r = "marshalRawCertificates (sdCertificates sd)"
  from assms(2) obtain a ci c sb where
    a: "marshalSetOf (map marshalAlg (sdDigestAlgorithmIdentifiers sd)) = Inr a"
    and ci: "marshalContentInfo (sdContentInfo sd) = Inr ci" and c: "marshalCRLs X (sdCRLs sd) = Inr c"
    and s: "marshalSetOf (map marshalSignerInfo (sdSignerInfos sd)) = Inr (tlv 0 True 17 sb)"
    and body: "bs = tlv 0 True 16 (?v @ a @ ci @ ?r @ c @ tlv 0 True 17 sb)"
    by (auto simp: marshalSD_def marshalSequence_def marshalSetOf_def)
  let ?s = "tlv 0 True 17 sb"
  from length_body [OF small [unfolded body]] have len: "length a < 2 ^ 31" "length ci < 2 ^ 31"
    "length c < 2 ^ 31" "length ?s < 2 ^ 31" by simp_all
  note sb = length_body [OF len(4)]
  have v: "parseInt (?v @ r) = Inr (sdVersion sd, r)" for r
    using ok by (intro int64.dec_enc) (simp add: sd_ok_def)
  have algs: "parseSetOf (universal 16 True) parseAlg (a @ r) = Inr (sdDigestAlgorithmIdentifiers (sdNorm sd), r)" for r
    using setOf_law [OF _ a len(1)] alg_law ok by (simp add: sd_ok_def sdNorm_def)
  have content: "parseContentInfo (ci @ r) = Inr (contentInfoNorm (sdContentInfo sd), r)" for r
    using contentInfo_dec_enc [OF _ ci len(2)] ok by (simp add: sd_ok_def)
  have certs: "parseRawCertificates (?r @ c @ ?s) = Inr (sdCertificates sd, c @ ?s)"
    using ok by (intro certs_enc not_certs [OF c len(3) sb]) (simp add: sd_ok_def)
  have "parseCRLs X ?s = Inr (None, ?s)"
    using parseField_absent [OF _ _ sb, of 0 17 "implicit 1 True" True _ None "[]"]
    by (simp add: parseCRLs_def implicit_def del: One_nat_def)
  then have crls: "parseCRLs X (c @ ?s) = Inr (sdCRLs sd, ?s)"
    using ok by (intro crls_enc [OF _ c len(3)]) (simp_all add: sd_ok_def)
  have signers: "parseSetOf (universal 16 True) parseSignerInfo ?s = Inr (sdSignerInfos (sdNorm sd), [])"
    using setOf_law [OF _ s len(4), of parseSignerInfo siNorm "[]"] si_law ok by (simp add: sd_ok_def sdNorm_def)
  have "signedDataFields X (?v @ a @ ci @ ?r @ c @ ?s) = Inr (sdNorm sd, [])"
    by (simp add: signedDataFields_def v algs content certs crls signers) (simp add: sdNorm_def)
  with small show ?thesis unfolding body parseSD_def by (intro parseStruct_parts)
qed

end
