(* ===== verification/Pkcs7.thy ===== *)
theory Pkcs7
  imports SignedLaws
begin

text \<open>
  \<open>Parse\<close>: the transcoder of \<open>ber.go\<close>, the outer \<open>contentInfo\<close>, and one of the three content
  types (\<open>pkcs7.go\<close>, \<open>parseSignedData\<close> of \<open>verify.go\<close>).
\<close>

section \<open>The parsed object\<close>

text \<open>The dynamic type of \<open>PKCS7.raw\<close>; \<open>RawNil\<close> is the nil interface of a zero \<open>PKCS7\<close>.\<close>

datatype rawContent =
    RawNil
  | RawSignedData signedData
  | RawEnvelopedData envelopedData
  | RawEncryptedData encryptedData

record PKCS7 =
  Content :: bytes
  Certificates :: "Certificate list"
  CRLs :: "CertificateList list option"
  Signers :: "signerInfo list"
  p7raw :: rawContent

definition onlyRaw :: "rawContent \<Rightarrow> PKCS7" where
  "onlyRaw r = \<lparr>Content = [], Certificates = [], CRLs = None, Signers = [], p7raw = r\<rparr>"

section \<open>Parsing\<close>

definition parseEnvelopedData :: "bytes \<Rightarrow> PKCS7 result" where
  "parseEnvelopedData data = and_then (parseEnv data) (\<lambda>(ed, _). Inr (onlyRaw (RawEnvelopedData ed)))"

definition parseEncryptedData :: "bytes \<Rightarrow> PKCS7 result" where
  "parseEncryptedData data = and_then (parseED data) (\<lambda>(ed, _). Inr (onlyRaw (RawEncryptedData ed)))"

definition rawCertificates_Parse :: "x509 \<Rightarrow> bytes \<Rightarrow> Certificate list result" where
  "rawCertificates_Parse X raw =
     (if length raw = 0 then Inr []
      else and_then (parseRaw None raw) (\<lambda>(val, _). x509_ParseCertificates X (rvBytes val)))"

text \<open>The content octets of signed data: absent, an OCTET STRING, or a constructed value.\<close>

definition signedContent :: "bytes \<Rightarrow> bytes result" where
  "signedContent body =
     and_then (if length body > 0 then and_then (parseRaw None body) (\<lambda>(v, _). Inr v) else Inr rawZero) (\<lambda>compound.
       if rvIsCompound compound
       then (if rvTag compound = 4 then and_then (parseOctets (rvBytes compound)) (\<lambda>(content, _). Inr content)
             else Inr (rvBytes compound))
       else Inr (rvBytes compound))"

definition parseSignedData :: "x509 \<Rightarrow> bytes \<Rightarrow> PKCS7 result" where
  "parseSignedData X data =
     and_then (parseSD X data) (\<lambda>(sd, _).
     and_then (rawCertificates_Parse X (sdCertificates sd)) (\<lambda>certs.
     and_then (signedContent (rvBytes (ciContent (sdContentInfo sd)))) (\<lambda>content.
       Inr \<lparr>Content = content, Certificates = certs, CRLs = sdCRLs sd, Signers = sdSignerInfos sd,
         p7raw = RawSignedData sd\<rparr>)))"

definition Parse :: "x509 \<Rightarrow> bytes \<Rightarrow> PKCS7 result" where
  "Parse X data =
     (if length data = 0 then Inl EmptyInputData
      else and_then (ber2der data) (\<lambda>der.
        and_then (parseContentInfo der) (\<lambda>(info, rest).
          if length rest > 0 then Inl (Asn1Error TrailingData)
          else if ciContentType info = OIDSignedData then parseSignedData X (rvBytes (ciContent info))
          else if ciContentType info = OIDEnvelopedData then parseEnvelopedData (rvBytes (ciContent info))
          else if ciContentType info = OIDEncryptedData then parseEncryptedData (rvBytes (ciContent info))
          else Inl ErrUnsupportedContentType)))"

section \<open>Parsing what the package wrote\<close>

text \<open>The outer payload structure every operation of the package returns.\<close>

definition wrapContent :: "oid \<Rightarrow> bytes \<Rightarrow> bytes result" where
  "wrapContent contentType inner =
     marshalContentInfo \<lparr>ciContentType = contentType, ciContent = rawOf 2 0 True inner\<rparr>"

lemma wrapContent_body:
  assumes "wrapContent ct inner = Inr bs" "length bs < 2 ^ 31"
  shows "length inner < 2 ^ 31"
proof -
  from assms(1) obtain t where "bs = tlv 0 True 16 (t @ tlv 2 True 0 inner)"
    by (auto simp: wrapContent_def marshalContentInfo_def marshalSequence_def marshalOptionalRaw_def)
  from length_body [OF assms(2) [unfolded this]] have "length (tlv 2 True 0 inner) < 2 ^ 31" by simp
  then show ?thesis by (rule length_body)
qed

lemma Parse_wrapped:
  assumes wrap: "wrapContent ct inner = Inr bs" "length bs < 2 ^ 31"
    and ct: "oid_ok ct" and inner: "inner \<noteq> []" "der_items 498 inner"
  shows "Parse X bs =
    (if ct = OIDSignedData then parseSignedData X inner
     else if ct = OIDEnvelopedData then parseEnvelopedData inner
     else if ct = OIDEncryptedData then parseEncryptedData inner
     else Inl ErrUnsupportedContentType)"
proof -
  let ?ci = "\<lparr>ciContentType = ct, ciContent = rawOf 2 0 True inner\<rparr>"
  note len = wrapContent_body [OF wrap]
  have m: "marshalContentInfo ?ci = Inr bs" using wrap(1) by (simp add: wrapContent_def)
  have "der_item (Suc 498) (tlv 2 True 0 inner)" using len inner(2) by (intro der_item_constructed) simp_all
  then have "der_item (Suc (Suc 498)) bs" by (intro der_item_contentInfo [OF m wrap(2)]) simp
  then have "der_item (Suc maxNestingDepth) bs" by (rule der_item_mono) (simp add: maxNestingDepth_def)
  then have der: "ber2der bs = Inr bs" "bs \<noteq> []" by (rule ber2der_item, rule der_item_nonempty)
  have "contentInfo_ok ?ci" using ct inner(1) by (auto simp: contentInfo_ok_def)
  from contentInfo_dec_enc [OF this m wrap(2), of "[]"]
  have p: "parseContentInfo bs = Inr (contentInfoNorm ?ci, [])" by simp
  have "rvBytes (ciContent (contentInfoNorm ?ci)) = inner"
    using len by (simp add: contentInfoNorm_def rawNorm_def rawElement_def element_tlv)
  with der p show ?thesis by (simp add: Parse_def contentInfoNorm_def)
qed

end
