(* ===== verification/Evaluation.thy ===== *)
theory Evaluation
  imports KemLaws Pkcs7
begin

text \<open>
  Rules that evaluate the encoder on concrete values, for the theorems about one input.
\<close>

named_theorems encode_eval

lemma base128_length_eval [encode_eval]:
  "n < 128 \<Longrightarrow> base128_length n = 1" "\<not> n < 128 \<Longrightarrow> base128_length n = Suc (base128_length (n div 128))"
  by (simp_all add: base128_length.simps)

lemma int_bytes_eval [encode_eval]: "-128 \<le> i \<Longrightarrow> i \<le> 127 \<Longrightarrow> int_bytes i = [word_of_int i]"
  by (subst int_bytes.simps) simp

lemma tlv_eval [encode_eval]:
  "tag < 31 \<Longrightarrow> length body < 128 \<Longrightarrow>
     tlv cls compound tag body = word_of_nat (cls * 64 + (if compound then 32 else 0) + tag) # word_of_nat (length body) # body"
  "tag < 31 \<Longrightarrow> \<not> length body < 128 \<Longrightarrow> length body < 256 \<Longrightarrow>
     tlv cls compound tag body = word_of_nat (cls * 64 + (if compound then 32 else 0) + tag) # 0x81 # word_of_nat (length body) # body"
  by (simp_all add: tlv_def appendTagAndLength_def tagOctets_def der_length_eq lengthLength_def lengthLength_loop.simps)

lemmas [encode_eval] = marshalInt_def marshalOctets_def
  marshalSequence_def marshalSetOf_def setBody_def marshalRaw_def rawFull_def rawOf_def marshalOptionalRaw_def rawZero_def
  marshalAlg_def algOnly_def

lemma cbc_eval [encode_eval]:
  "0 < BlockSize block \<Longrightarrow> length src < BlockSize block \<Longrightarrow> cbc_encrypt_blocks block iv src = []"
  "0 < BlockSize block \<Longrightarrow> \<not> length src < BlockSize block \<Longrightarrow> cbc_encrypt_blocks block iv src =
     (let c = block_cipher.Encrypt block (xor_bytes iv (take (BlockSize block) src)) in
      c @ cbc_encrypt_blocks block c (drop (BlockSize block) src))"
  by (simp_all add: cbc_encrypt_blocks.simps Let_def)

lemmas [encode_eval] = marshalRecipientInfo_def unmarshalAll_def wrapped_def parseRaw_def parseField_def parseValue_def
  parseTagAndLength_def parseLength_def rawContent_def

lemmas [encode_eval] = cbc_encrypt_def pad_def xor_bytes_def rand_Read_def keyOrRandom_def
  encryptDESCBC_def encryptAESCBC_def cea_defs marshalEncryptedContent_def
  marshalECI_def marshalContentInfo_def marshalED_def marshalIAS_def marshalRI_def marshalEnv_def marshalORI_def
  marshalKEM_def marshalUKM_def marshalOtherInfo_def wrapContent_def
  makeKEMRecipientInfo_def encapsulateForCertificate_def encapsulateWith_def deriveKEMKey_def mlKEMKEKLength_def
  recipientIdentifierForCertificate_def marshalOtherRecipientInfo_def
  des_NewCipher_def aes_NewCipher_def rev_crypto_def toy_pke_def toy_certificate_def cert2issuerAndSerial_def

text \<open>The identifiers the witnesses write.\<close>

lemma marshal_oids [encode_eval]:
  "marshalOID OIDData = Inr [6, 9, 42, 134, 72, 134, 247, 13, 1, 7, 1]"
  "marshalOID OIDSignedData = Inr [6, 9, 42, 134, 72, 134, 247, 13, 1, 7, 2]"
  "marshalOID OIDEnvelopedData = Inr [6, 9, 42, 134, 72, 134, 247, 13, 1, 7, 3]"
  "marshalOID OIDEncryptedData = Inr [6, 9, 42, 134, 72, 134, 247, 13, 1, 7, 6]"
  "marshalOID OIDAttributeContentType = Inr [6, 9, 42, 134, 72, 134, 247, 13, 1, 9, 3]"
  "marshalOID OIDAttributeMessageDigest = Inr [6, 9, 42, 134, 72, 134, 247, 13, 1, 9, 4]"
  "marshalOID OIDAttributeSigningTime = Inr [6, 9, 42, 134, 72, 134, 247, 13, 1, 9, 5]"
  "marshalOID OIDDigestAlgorithmSHA1 = Inr [6, 5, 43, 14, 3, 2, 26]"
  "marshalOID OIDDigestAlgorithmSHA256 = Inr [6, 9, 96, 134, 72, 1, 101, 3, 4, 2, 1]"
  "marshalOID OIDEncryptionAlgorithmRSA = Inr [6, 9, 42, 134, 72, 134, 247, 13, 1, 1, 1]"
  "marshalOID OIDEncryptionAlgorithmRSASHA1 = Inr [6, 9, 42, 134, 72, 134, 247, 13, 1, 1, 5]"
  "marshalOID OIDEncryptionAlgorithmRSASHA256 = Inr [6, 9, 42, 134, 72, 134, 247, 13, 1, 1, 11]"
  "marshalOID OIDEncryptionAlgorithmDESCBC = Inr [6, 5, 43, 14, 3, 2, 7]"
  "marshalOID OIDEncryptionAlgorithmAES128CBC = Inr [6, 9, 96, 134, 72, 1, 101, 3, 4, 1, 2]"
  "marshalOID OIDOtherRecipientInfoKEM = Inr [6, 11, 42, 134, 72, 134, 247, 13, 1, 9, 16, 13, 3]"
  "marshalOID OIDKeyAlgorithmMLKEM768 = Inr [6, 9, 96, 134, 72, 1, 101, 3, 4, 4, 2]"
  "marshalOID OIDKDFHKDFSHA256 = Inr [6, 11, 42, 134, 72, 134, 247, 13, 1, 9, 16, 3, 28]"
  "marshalOID OIDKeyWrapAES256 = Inr [6, 9, 96, 134, 72, 1, 101, 3, 4, 1, 45]"
  by (simp_all add: marshalOID_def makeObjectIdentifier.simps appendBase128Int_def encode_eval oid_defs)

text \<open>The name in the certificates of the examples.\<close>

lemma toy_name: "name_ok 490 [48, 0]"
proof -
  have eq: "tlv 0 True 16 [] = [48, 0]" by (simp add: encode_eval)
  have "der_item (Suc 490) (tlv 0 True 16 [])" by (intro der_item_constructed der_items_Nil) simp_all
  then show ?thesis using element_tlv(1) [of 0 16 "[]" "\<lambda>_. True" True] by (simp add: name_ok_def eq)
qed

end
