(* ===== verification/Envelope.thy ===== *)
theory Envelope
  imports Evaluation
begin

text \<open>
  Enveloped and encrypted data: \<open>Encrypt\<close>, \<open>EncryptUsingPSK\<close> (\<open>encrypt.go\<close>), \<open>Decrypt\<close> and
  \<open>DecryptUsingPSK\<close> (\<open>decrypt.go\<close>). The package variable \<open>ContentEncryptionAlgorithm\<close> is the
  argument \<open>cea\<close>, a nil certificate is \<open>None\<close>.
\<close>

section \<open>Encryption\<close>

text \<open>The type assertion on \<open>recipient.PublicKey\<close> comes first: a nil recipient panics.\<close>

definition makeRecipientInfo ::
  "crypto \<Rightarrow> pke \<Rightarrow> int \<Rightarrow> bytes \<Rightarrow> Certificate option \<Rightarrow> entropy \<Rightarrow> ((RawValue \<times> bool) \<times> entropy) result" where
  "makeRecipientInfo C P cea key recipient ent = (case recipient of
     None \<Rightarrow> Inl PanicNil
   | Some cert \<Rightarrow> (case certPublicKey cert of
       RSAPublicKey pub \<Rightarrow>
         and_then (rsa_EncryptPKCS1v15 P pub key ent) (\<lambda>(encrypted, ent).
         and_then (marshalRecipientInfo (marshalRI \<lparr>riVersion = 0, riIssuerAndSerialNumber = cert2issuerAndSerial cert,
             riKeyEncryptionAlgorithm = algOnly OIDEncryptionAlgorithmRSA, riEncryptedKey = encrypted\<rparr>)) (\<lambda>raw.
           Inr ((raw, False), ent)))
     | _ \<Rightarrow> and_then (makeKEMRecipientInfo C P cea key recipient ent) (\<lambda>(raw, ent). Inr ((raw, True), ent))))"

text \<open>The loop over the recipients, with the version of the envelope.\<close>

fun makeRecipientInfos ::
  "crypto \<Rightarrow> pke \<Rightarrow> int \<Rightarrow> bytes \<Rightarrow> Certificate option list \<Rightarrow> int \<Rightarrow> entropy \<Rightarrow>
     ((RawValue list \<times> int) \<times> entropy) result" where
  "makeRecipientInfos C P cea key [] version ent = Inr (([], version), ent)"
| "makeRecipientInfos C P cea key (recipient # recipients) version ent =
     and_then (makeRecipientInfo C P cea key recipient ent) (\<lambda>((info, usesOtherRecipientInfo), ent).
     and_then (makeRecipientInfos C P cea key recipients (if usesOtherRecipientInfo then 3 else version) ent)
       (\<lambda>((infos, version), ent). Inr ((info # infos, version), ent)))"

definition encryptContent ::
  "crypto \<Rightarrow> int \<Rightarrow> bytes \<Rightarrow> entropy \<Rightarrow> ((bytes \<times> encryptedContentInfo) \<times> entropy) result" where
  "encryptContent C cea content ent =
     (if cea = EncryptionAlgorithmDESCBC then encryptDESCBC C content None ent
      else if cea = EncryptionAlgorithmAES128CBC \<or> cea = EncryptionAlgorithmAES256CBC then encryptAESCBC C cea content None ent
      else if cea = EncryptionAlgorithmAES128GCM \<or> cea = EncryptionAlgorithmAES256GCM then encryptAESGCM C cea content None ent
      else Inl ErrUnsupportedEncryptionAlgorithm)"

definition Encrypt ::
  "crypto \<Rightarrow> pke \<Rightarrow> int \<Rightarrow> bytes \<Rightarrow> Certificate option list \<Rightarrow> entropy \<Rightarrow> (bytes \<times> entropy) result" where
  "Encrypt C P cea content recipients ent =
     and_then (encryptContent C cea content ent) (\<lambda>((key, eci), ent).
     and_then (makeRecipientInfos C P cea key recipients 0 ent) (\<lambda>((recipientInfos, envelopeVersion), ent).
     and_then (marshalEnv \<lparr>envVersion = envelopeVersion, envRecipientInfos = recipientInfos, envContentInfo = eci\<rparr>)
       (\<lambda>innerContent. and_then (wrapContent OIDEnvelopedData innerContent) (\<lambda>bs. Inr (bs, ent)))))"

definition encryptContentPSK ::
  "crypto \<Rightarrow> int \<Rightarrow> bytes \<Rightarrow> bytes \<Rightarrow> entropy \<Rightarrow> ((bytes \<times> encryptedContentInfo) \<times> entropy) result" where
  "encryptContentPSK C cea content psk ent =
     (if cea = EncryptionAlgorithmDESCBC then encryptDESCBC C content (Some psk) ent
      else if cea = EncryptionAlgorithmAES128GCM \<or> cea = EncryptionAlgorithmAES256GCM
      then encryptAESGCM C cea content (Some psk) ent
      else Inl ErrUnsupportedEncryptionAlgorithm)"

definition EncryptUsingPSK ::
  "crypto \<Rightarrow> int \<Rightarrow> bytes \<Rightarrow> bytes option \<Rightarrow> entropy \<Rightarrow> (bytes \<times> entropy) result" where
  "EncryptUsingPSK C cea content key ent = (case key of
     None \<Rightarrow> Inl ErrPSKNotProvided
   | Some psk \<Rightarrow>
       and_then (encryptContentPSK C cea content psk ent) (\<lambda>((_, eci), ent).
       and_then (marshalED \<lparr>edVersion = 0, edContentInfo = eci\<rparr>) (\<lambda>innerContent.
       and_then (wrapContent OIDEncryptedData innerContent) (\<lambda>bs. Inr (bs, ent)))))"

section \<open>Decryption\<close>

fun selectRecipient :: "RawValue list \<Rightarrow> Certificate \<Rightarrow> recipientInfo result" where
  "selectRecipient [] cert = Inl (RecipientError NoRecipientForCertificate)"
| "selectRecipient (raw # recipients) cert =
     (if rvClass raw \<noteq> 0 \<or> rvTag raw \<noteq> 16 then selectRecipient recipients cert
      else and_then (unmarshalAll MalformedKeyTrans KeyTransTrailingData parseRI (rvFullBytes raw)) (\<lambda>recp.
        if isCertMatchForIssuerAndSerial cert (riIssuerAndSerialNumber recp) then Inr recp
        else selectRecipient recipients cert))"

definition selectRecipientForCertificate :: "RawValue list \<Rightarrow> Certificate option \<Rightarrow> recipientInfo result" where
  "selectRecipientForCertificate recipients cert = (case cert of
     None \<Rightarrow> Inl (RecipientError RecipientCertificateNil)
   | Some cert \<Rightarrow> selectRecipient recipients cert)"

definition p7_Decrypt :: "crypto \<Rightarrow> pke \<Rightarrow> PKCS7 \<Rightarrow> Certificate option \<Rightarrow> PrivateKey \<Rightarrow> bytes result" where
  "p7_Decrypt C P p7 cert pkey = (case p7raw p7 of
     RawEnvelopedData data \<Rightarrow> (case pkey of
       RSAPrivateKey priv _ \<Rightarrow>
         and_then (selectRecipientForCertificate (envRecipientInfos data) cert) (\<lambda>recipient.
         and_then (rsa_DecryptPKCS1v15 P priv (riEncryptedKey recipient)) (\<lambda>contentKey.
           eci_decrypt C (envContentInfo data) contentKey))
     | _ \<Rightarrow> (case mlKEMDecapsulator P pkey of
         None \<Rightarrow> Inl ErrUnsupportedAlgorithm
       | Some _ \<Rightarrow>
           if envVersion data \<noteq> 3 then Inl (RecipientError EnvelopeVersionNot3)
           else if algOID (eciAlgorithm (envContentInfo data)) \<noteq> OIDEncryptionAlgorithmAES128CBC \<and>
             algOID (eciAlgorithm (envContentInfo data)) \<noteq> OIDEncryptionAlgorithmAES256CBC
           then Inl (RecipientError KEMRequiresAESCBC)
           else and_then (decryptKEMRecipientKey C P (envRecipientInfos data) cert pkey) (\<lambda>contentKey.
             eci_decrypt C (envContentInfo data) contentKey)))
   | _ \<Rightarrow> Inl ErrNotEncryptedContent)"

definition DecryptUsingPSK :: "crypto \<Rightarrow> PKCS7 \<Rightarrow> bytes \<Rightarrow> bytes result" where
  "DecryptUsingPSK C p7 key = (case p7raw p7 of
     RawEncryptedData data \<Rightarrow> eci_decrypt C (edContentInfo data) key
   | _ \<Rightarrow> Inl ErrNotEncryptedContent)"

section \<open>Encrypted data\<close>

lemma encryptContentPSK_sealed:
  assumes "crypto_ok C" "encryptContentPSK C cea content psk ent = Inr ((k, eci), ent')"
    "marshalECI eci = Inr bs" "length bs < 2 ^ 31"
  shows "k = psk \<and> eci_ok eci \<and> der_item 3 bs \<and> eci_decrypt C (eciNorm eci) psk = Inr content"
proof (cases "cea = EncryptionAlgorithmDESCBC")
  case True
  with assms(2) have enc: "encryptDESCBC C content (Some psk) ent = Inr ((k, eci), ent')"
    by (simp add: encryptContentPSK_def)
  with des_cbc.key_kept [OF this] des_cbc.sealed [OF assms(1) enc assms(3,4)] show ?thesis by simp
next
  case False
  with assms(2) have enc: "encryptAESGCM C cea content (Some psk) ent = Inr ((k, eci), ent')"
    by (simp add: encryptContentPSK_def split: if_splits)
  with aes_gcm.key_kept [of "(C, cea)"] aes_gcm.sealed [of "(C, cea)", OF _ _ assms(3,4)] assms(1)
  show ?thesis by fastforce
qed

lemma der_item_marshalED:
  assumes "marshalED ed = Inr bs" "length bs < 2 ^ 31"
    and "\<And>e. marshalECI (edContentInfo ed) = Inr e \<Longrightarrow> length e < 2 ^ 31 \<Longrightarrow> der_item (Suc k) e"
  shows "der_item (Suc (Suc k)) bs"
proof -
  let ?v = "marshalInt (edVersion ed)"
  from assms(1) obtain e where e: "marshalECI (edContentInfo ed) = Inr e" and bs: "bs = tlv 0 True 16 (?v @ e)"
    by (auto simp: marshalED_def marshalSequence_def)
  from length_body [OF assms(2) [unfolded bs]] have len: "length ?v < 2 ^ 31" "length e < 2 ^ 31" by simp_all
  from assms(3) [OF e len(2)] have "der_item (Suc k) e" .
  with len show ?thesis
    unfolding bs by (intro der_item_sequence2 [OF assms(2) [unfolded bs]] der_item_marshalInt der_items_single)
qed

text \<open>
  C22: A document made with \<open>EncryptUsingPSK\<close> is parsed and decrypted to its content with the same key,
  for every algorithm the function accepts, as long as it is shorter than two gigabytes.
\<close>

theorem psk_roundtrip:
  assumes C: "crypto_ok C" and enc: "EncryptUsingPSK C cea content (Some psk) ent = Inr (bs, ent')"
    and len: "length bs < 2 ^ 31"
  shows "\<exists>p7. Parse X bs = Inr p7 \<and> DecryptUsingPSK C p7 psk = Inr content"
proof -
  from enc obtain k eci inner where
    eci: "encryptContentPSK C cea content psk ent = Inr ((k, eci), ent')"
    and inner: "marshalED \<lparr>edVersion = 0, edContentInfo = eci\<rparr> = Inr inner"
    and wrap: "wrapContent OIDEncryptedData inner = Inr bs"
    by (auto simp: EncryptUsingPSK_def)
  note small = wrapContent_body [OF wrap len]
  from inner obtain e where e: "marshalECI eci = Inr e" and inner_eq: "inner = tlv 0 True 16 (marshalInt 0 @ e)"
    by (auto simp: marshalED_def marshalSequence_def)
  from length_body [OF small [unfolded inner_eq]] have "length e < 2 ^ 31" by simp
  from encryptContentPSK_sealed [OF C eci e this]
  have sealed: "eci_ok eci" "der_item 3 e" "eci_decrypt C (eciNorm eci) psk = Inr content" by simp_all
  have "der_item (Suc (Suc 2)) inner"
    by (rule der_item_marshalED [OF inner small]) (use sealed(2) e in \<open>simp add: numeral_3_eq_3\<close>)
  then have "der_items 498 inner" by (intro der_items_single) (erule der_item_mono, simp)
  then have parse: "Parse X bs = parseEncryptedData inner"
    using Parse_wrapped [OF wrap len] inner_eq by simp
  have "parseED inner = Inr (\<lparr>edVersion = 0, edContentInfo = eciNorm eci\<rparr>, [])"
    using ed_dec_enc [OF _ _ _ inner small, of "[]"] sealed(1) by simp
  with parse sealed(3) show ?thesis by (simp add: parseEncryptedData_def DecryptUsingPSK_def onlyRaw_def)
qed

lemma example_psk:
  "\<exists>bs. EncryptUsingPSK rev_crypto EncryptionAlgorithmDESCBC [104, 105] (Some [1, 1, 1, 1, 1, 1, 1, 1])
     [2, 2, 2, 2, 2, 2, 2, 2] = Inr (bs, []) \<and> length bs < 2 ^ 31"
  by (simp add: encode_eval EncryptUsingPSK_def encryptContentPSK_def)

theorem psk_roundtrip_witness:
  "\<exists>bs p7. EncryptUsingPSK rev_crypto EncryptionAlgorithmDESCBC [104, 105] (Some [1, 1, 1, 1, 1, 1, 1, 1])
     [2, 2, 2, 2, 2, 2, 2, 2] = Inr (bs, []) \<and>
     Parse toy_x509 bs = Inr p7 \<and> DecryptUsingPSK rev_crypto p7 [1, 1, 1, 1, 1, 1, 1, 1] = Inr [104, 105]"
  using example_psk psk_roundtrip [OF rev_crypto_ok, where X = toy_x509] by blast

section \<open>Enveloped data\<close>

lemma encryptContent_sealed:
  assumes "crypto_ok C" "encryptContent C cea content ent = Inr ((k, eci), ent')"
    "marshalECI eci = Inr bs" "length bs < 2 ^ 31"
  shows "eci_ok eci" "der_item 3 bs" "eci_decrypt C (eciNorm eci) k = Inr content"
proof -
  have "eci_ok eci \<and> der_item 3 bs \<and> eci_decrypt C (eciNorm eci) k = Inr content"
  proof (cases "cea = EncryptionAlgorithmDESCBC")
    case True
    with assms(2) have enc: "encryptDESCBC C content None ent = Inr ((k, eci), ent')" by (simp add: encryptContent_def)
    from des_cbc.sealed [OF assms(1) enc assms(3,4)] show ?thesis .
  next
    case False
    with assms(2) consider "encryptAESCBC C cea content None ent = Inr ((k, eci), ent')"
      | "encryptAESGCM C cea content None ent = Inr ((k, eci), ent')"
      by (auto simp: encryptContent_def split: if_splits)
    then show ?thesis
      using aes_cbc.sealed [of "(C, cea)", OF _ _ assms(3,4)] aes_gcm.sealed [of "(C, cea)", OF _ _ assms(3,4)] assms(1)
      by cases fastforce+
  qed
  then show "eci_ok eci" "der_item 3 bs" "eci_decrypt C (eciNorm eci) k = Inr content" by simp_all
qed

lemma der_item_marshalRI:
  assumes "marshalRI ri = Inr bs" "length bs < 2 ^ 31" "riKeyEncryptionAlgorithm ri = algOnly oid"
    and name: "der_item (Suc k) (marshalRaw (IssuerName (riIssuerAndSerialNumber ri)))"
  shows "der_item (Suc (Suc (Suc k))) bs"
proof -
  have "der_items (Suc (Suc k)) i" if "Inr i = marshalIAS (riIssuerAndSerialNumber ri)" "length i < 2 ^ 31" for i
    using that name by (intro der_items_single der_item_marshalIAS [of "riIssuerAndSerialNumber ri"]) simp_all
  with assms(1) [unfolded marshalRI_def] assms(2) show ?thesis
    by (intro der_item_marshalSequence [of _ bs]) (auto simp: assms(3) intro: der_parts)
qed

fun isRSA :: "PublicKey \<Rightarrow> bool" where
  "isRSA (RSAPublicKey _) = True"
| "isRSA _ = False"

text \<open>How a decoder treats a written key transport recipient.\<close>

definition rsa_reads :: "pke \<Rightarrow> bytes \<Rightarrow> Certificate \<Rightarrow> RawValue \<Rightarrow> bool" where
  "rsa_reads P contentKey cert r \<longleftrightarrow> rvClass r = 0 \<and> rvTag r = 16 \<and> (\<exists>pub enc e e' ri.
     certPublicKey cert = RSAPublicKey pub \<and> rsa_EncryptPKCS1v15 P pub contentKey e = Inr (enc, e') \<and>
     unmarshalAll MalformedKeyTrans KeyTransTrailingData parseRI (rvFullBytes r) = Inr ri \<and>
     riEncryptedKey ri = enc \<and>
     (\<forall>other. isCertMatchForIssuerAndSerial other (riIssuerAndSerialNumber ri) \<longleftrightarrow> same_recipient other cert))"

definition recipient_reads :: "crypto \<Rightarrow> pke \<Rightarrow> bytes \<Rightarrow> Certificate \<Rightarrow> RawValue \<Rightarrow> bool" where
  "recipient_reads C P contentKey cert r \<longleftrightarrow>
     (if isRSA (certPublicKey cert) then rsa_reads P contentKey cert r else kem_reads C P contentKey cert r)"

lemma rsa_recipient_read:
  assumes make: "makeRecipientInfo C P cea contentKey (Some cert) ent = Inr ((raw, other), ent')"
    and pub: "certPublicKey cert = RSAPublicKey pub" and name: "name_ok k (RawIssuer cert)"
    and len: "length (marshalRaw raw) < 2 ^ 31"
  shows "rsa_reads P contentKey cert (rawElement (marshalRaw raw))" "element (\<lambda>_. True) (marshalRaw raw)"
    "der_item (Suc (Suc (Suc k))) (marshalRaw raw)"
proof -
  from make pub obtain enc e' where enc: "rsa_EncryptPKCS1v15 P pub contentKey ent = Inr (enc, e')"
    and raw: "marshalRecipientInfo (marshalRI \<lparr>riVersion = 0, riIssuerAndSerialNumber = cert2issuerAndSerial cert,
      riKeyEncryptionAlgorithm = algOnly OIDEncryptionAlgorithmRSA, riEncryptedKey = enc\<rparr>) = Inr raw"
    by (auto simp: makeRecipientInfo_def)
  define ri where "ri = \<lparr>riVersion = 0, riIssuerAndSerialNumber = cert2issuerAndSerial cert,
    riKeyEncryptionAlgorithm = algOnly OIDEncryptionAlgorithmRSA, riEncryptedKey = enc\<rparr>"
  from raw obtain der where der: "marshalRI ri = Inr der" "parseRaw None der = Inr (raw, [])"
    by (auto simp: marshalRecipientInfo_def unmarshalAll_Inr ri_def)
  then obtain b where b: "der = tlv 0 True 16 b" by (auto simp: marshalRI_def elim!: marshalSequence_InrE)
  with der(2) have whole: "element (\<lambda>_. True) der" "raw = rawElement der" using parseRaw_whole [of None der raw] by simp_all
  then have raw_der: "marshalRaw raw = der" by (simp add: marshal_rawElement [of "\<lambda>_. True"])
  note small = len [unfolded raw_der]
  have issuer: "element (\<lambda>_. True) (RawIssuer cert)" "der_item (Suc k) (RawIssuer cert)"
    using name by (simp_all add: name_ok_def)
  note ias = iasNorm_cert [OF issuer(1)]
  have "ri_ok ri" using issuer by (simp add: ri_ok_def ri_def ias(2))
  from ri_dec_enc [OF this der(1) small, of "[]"]
  have "unmarshalAll MalformedKeyTrans KeyTransTrailingData parseRI (rvFullBytes (rawElement der)) = Inr (riNorm ri)"
    by (simp add: unmarshalAll_Inr rawElement_def)
  moreover have "rvClass (rawElement der) = 0" "rvTag (rawElement der) = 16"
    using element_tlv(3) [OF _ _ length_body [OF small [unfolded b]], where cls = 0 and tag = 16 and compound = True]
    by (simp_all add: b rawElement_def)
  moreover have "riEncryptedKey (riNorm ri) = enc" "riIssuerAndSerialNumber (riNorm ri) = iasNorm (cert2issuerAndSerial cert)"
    by (simp_all add: riNorm_def ri_def)
  ultimately show "rsa_reads P contentKey cert (rawElement (marshalRaw raw))"
    unfolding rsa_reads_def raw_der using pub enc match_iasNorm [OF issuer(1)]
    by (fastforce simp: same_recipient_def)
  show "element (\<lambda>_. True) (marshalRaw raw)" using whole raw_der by simp
  have "marshalRaw (IssuerName (riIssuerAndSerialNumber ri)) = RawIssuer cert" using ias(2) by (simp add: ri_def)
  with issuer(2) show "der_item (Suc (Suc (Suc k))) (marshalRaw raw)"
    unfolding raw_der by (intro der_item_marshalRI [OF der(1) small]) (simp_all add: ri_def)
qed

text \<open>What one recipient of either kind leaves in the envelope.\<close>

definition written :: "crypto \<Rightarrow> pke \<Rightarrow> bytes \<Rightarrow> nat \<Rightarrow> Certificate \<Rightarrow> RawValue \<Rightarrow> bool" where
  "written C P contentKey k cert raw \<longleftrightarrow> recipient_reads C P contentKey cert (rawElement (marshalRaw raw)) \<and>
     element (\<lambda>_. True) (marshalRaw raw) \<and> der_item (Suc (Suc (Suc (Suc k)))) (marshalRaw raw)"

lemma makeRecipientInfo_written:
  assumes make: "makeRecipientInfo C P cea contentKey (Some cert) ent = Inr ((raw, other), ent')"
    and C: "crypto_ok C" and name: "name_ok k (RawIssuer cert)" and len: "length (marshalRaw raw) < 2 ^ 31"
  shows "written C P contentKey k cert raw" "other \<longleftrightarrow> \<not> isRSA (certPublicKey cert)"
proof -
  have "written C P contentKey k cert raw \<and> (other \<longleftrightarrow> \<not> isRSA (certPublicKey cert))"
  proof (cases "isRSA (certPublicKey cert)")
    case True
    then obtain pub where pub: "certPublicKey cert = RSAPublicKey pub" by (cases "certPublicKey cert") simp_all
    with make have "\<not> other" by (auto simp: makeRecipientInfo_def)
    with True rsa_recipient_read [OF make pub name len] show ?thesis
      by (simp add: written_def recipient_reads_def der_item_Suc)
  next
    case False
    with make have other: "other" and kem: "makeKEMRecipientInfo C P cea contentKey (Some cert) ent = Inr (raw, ent')"
      by (cases "certPublicKey cert"; auto simp: makeRecipientInfo_def)+
    have "element (\<lambda>_. True) (RawIssuer cert)" using name by (simp add: name_ok_def)
    with other False kem_recipient_read [OF kem C _ len] der_item_kem_recipient [OF kem name len] show ?thesis
      by (simp add: written_def recipient_reads_def)
  qed
  then show "written C P contentKey k cert raw" "other \<longleftrightarrow> \<not> isRSA (certPublicKey cert)" by simp_all
qed

lemma makeRecipientInfos_written:
  assumes "makeRecipientInfos C P cea contentKey recipients v ent = Inr ((infos, v'), ent')"
    and C: "crypto_ok C" and "\<forall>cert. Some cert \<in> set recipients \<longrightarrow> name_ok k (RawIssuer cert)"
    and "\<forall>raw \<in> set infos. length (marshalRaw raw) < 2 ^ 31"
  shows "list_all2 (\<lambda>recipient raw. \<exists>cert. recipient = Some cert \<and> written C P contentKey k cert raw) recipients infos"
    "v' = (if \<exists>cert. Some cert \<in> set recipients \<and> \<not> isRSA (certPublicKey cert) then 3 else v)"
proof -
  have "list_all2 (\<lambda>recipient raw. \<exists>cert. recipient = Some cert \<and> written C P contentKey k cert raw) recipients infos \<and>
    v' = (if \<exists>cert. Some cert \<in> set recipients \<and> \<not> isRSA (certPublicKey cert) then 3 else v)"
    using assms(1,3,4)
  proof (induction recipients arbitrary: v ent infos)
    case Nil
    then show ?case by simp
  next
    case (Cons recipient recipients)
    from Cons.prems(1) obtain raw other e infos' where
      make: "makeRecipientInfo C P cea contentKey recipient ent = Inr ((raw, other), e)"
      and rest: "makeRecipientInfos C P cea contentKey recipients (if other then 3 else v) e = Inr ((infos', v'), ent')"
      and infos: "infos = raw # infos'" by fastforce
    from make obtain cert where cert: "recipient = Some cert" by (cases recipient) (simp_all add: makeRecipientInfo_def)
    from Cons.prems cert infos have ok: "name_ok k (RawIssuer cert)" "length (marshalRaw raw) < 2 ^ 31" by simp_all
    note one = makeRecipientInfo_written [OF make [unfolded cert] C ok]
    have "list_all2 (\<lambda>recipient raw. \<exists>cert. recipient = Some cert \<and> written C P contentKey k cert raw) recipients infos' \<and>
      v' = (if \<exists>cert. Some cert \<in> set recipients \<and> \<not> isRSA (certPublicKey cert) then 3 else if other then 3 else v)"
      using Cons.prems infos by (intro Cons.IH [OF rest]) simp_all
    with one show ?case by (auto simp: cert infos)
  qed
  then show "list_all2 (\<lambda>recipient raw. \<exists>cert. recipient = Some cert \<and> written C P contentKey k cert raw) recipients infos"
    "v' = (if \<exists>cert. Some cert \<in> set recipients \<and> \<not> isRSA (certPublicKey cert) then 3 else v)" by simp_all
qed

text \<open>Every recipient is in the envelope as the reader sees it, and nothing else is.\<close>

definition readable :: "crypto \<Rightarrow> pke \<Rightarrow> bytes \<Rightarrow> Certificate option list \<Rightarrow> RawValue list \<Rightarrow> bool" where
  "readable C P contentKey recipients rs \<longleftrightarrow>
     (\<forall>r \<in> set rs. \<exists>cert. Some cert \<in> set recipients \<and> recipient_reads C P contentKey cert r) \<and>
     (\<forall>cert. Some cert \<in> set recipients \<longrightarrow> (\<exists>r \<in> set rs. recipient_reads C P contentKey cert r))"

lemma readable_infos:
  assumes "list_all2 (\<lambda>recipient raw. \<exists>cert. recipient = Some cert \<and> written C P contentKey k cert raw) recipients infos"
  shows "readable C P contentKey recipients (map (rawElement \<circ> marshalRaw) (sort_key marshalRaw infos))"
    "\<forall>raw \<in> set infos. element (\<lambda>_. True) (marshalRaw raw) \<and> der_item (Suc (Suc (Suc (Suc k)))) (marshalRaw raw)"
proof -
  have 1: "\<exists>cert. Some cert \<in> set recipients \<and> written C P contentKey k cert raw" if "raw \<in> set infos" for raw
    using assms that by (fastforce simp: list_all2_conv_all_nth in_set_conv_nth)
  have 2: "\<exists>raw \<in> set infos. written C P contentKey k cert raw" if "Some cert \<in> set recipients" for cert
    using assms that by (fastforce simp: list_all2_conv_all_nth in_set_conv_nth)
  show "readable C P contentKey recipients (map (rawElement \<circ> marshalRaw) (sort_key marshalRaw infos))"
    unfolding readable_def using 1 2 by (fastforce simp: written_def)
  show "\<forall>raw \<in> set infos. element (\<lambda>_. True) (marshalRaw raw) \<and> der_item (Suc (Suc (Suc (Suc k)))) (marshalRaw raw)"
    using 1 by (fastforce simp: written_def)
qed

lemma marshalEnv_parts:
  assumes "marshalEnv env = Inr bs" "length bs < 2 ^ 31"
  obtains e where "marshalECI (envContentInfo env) = Inr e" "length e < 2 ^ 31"
    "\<forall>raw \<in> set (envRecipientInfos env). length (marshalRaw raw) < 2 ^ 31"
    "\<And>k. (\<forall>raw \<in> set (envRecipientInfos env). der_item k (marshalRaw raw)) \<Longrightarrow> der_item (Suc k) e \<Longrightarrow>
       der_item (Suc (Suc k)) bs"
proof -
  let ?rvs = "sort_key marshalRaw (envRecipientInfos env)" and ?v = "marshalInt (envVersion env)"
  let ?r = "tlv 0 True 17 (concat (map marshalRaw ?rvs))"
  have r: "marshalSetOf (map (\<lambda>rv. Inr (marshalRaw rv)) (envRecipientInfos env)) = Inr ?r"
    by (simp add: marshalSetOf_def setBody_def sort_map)
  with assms(1) obtain e where e: "marshalECI (envContentInfo env) = Inr e"
    and bs: "bs = tlv 0 True 16 (?v @ ?r @ e)"
    by (auto simp: marshalEnv_def marshalSequence_def)
  from length_body [OF assms(2) [unfolded bs]] have len: "length ?r < 2 ^ 31" "length e < 2 ^ 31" "length ?v < 2 ^ 31"
    by simp_all
  note set_len = length_body [OF len(1)]
  have small: "length (marshalRaw raw) < 2 ^ 31" if "raw \<in> set (envRecipientInfos env)" for raw
    using set_len by (rule length_concat_part) (use that in simp)
  have der: "der_item (Suc (Suc k)) bs"
    if "\<forall>raw \<in> set (envRecipientInfos env). der_item k (marshalRaw raw)" "der_item (Suc k) e" for k
  proof -
    have "der_items k (concat (map marshalRaw ?rvs))"
      using that(1) by (intro der_items_concat) (auto intro: der_items_single)
    with set_len have "der_item (Suc k) ?r" by (intro der_item_constructed) simp_all
    with that(2) have "der_items (Suc k) (?r @ e)" by (intro der_items_append der_items_single)
    with len show ?thesis unfolding bs by (intro der_item_sequence2 [OF assms(2) [unfolded bs]] der_item_marshalInt)
  qed
  from e len(2) small der show thesis by (intro that) blast+
qed

lemma kem_recipient_cbc:
  assumes "makeRecipientInfo C P cea key (Some cert) ent = Inr (info, ent')" "\<not> isRSA (certPublicKey cert)"
  shows "cea = EncryptionAlgorithmAES128CBC \<or> cea = EncryptionAlgorithmAES256CBC"
proof -
  from assms obtain raw where "makeKEMRecipientInfo C P cea key (Some cert) ent = Inr (raw, ent')"
    by (cases "certPublicKey cert"; auto simp: makeRecipientInfo_def)
  then show ?thesis by (auto simp: makeKEMRecipientInfo_def split: if_split_asm)
qed

lemma kem_needs_cbc:
  assumes "makeRecipientInfos C P cea key recipients v ent = Inr ((infos, v'), ent')"
    and "Some cert \<in> set recipients" "\<not> isRSA (certPublicKey cert)"
  shows "cea = EncryptionAlgorithmAES128CBC \<or> cea = EncryptionAlgorithmAES256CBC"
  using assms(1,2)
proof (induction recipients arbitrary: v ent infos)
  case (Cons recipient recipients)
  from Cons.prems(1) obtain info e v1 e1 infos1 where
    make: "makeRecipientInfo C P cea key recipient ent = Inr (info, e)"
    and rest: "makeRecipientInfos C P cea key recipients v1 e = Inr ((infos1, v'), ent')" by fastforce
  show ?case
  proof (cases "recipient = Some cert")
    case True
    from make [unfolded True] assms(3) show ?thesis by (rule kem_recipient_cbc)
  next
    case False
    with Cons.prems(2) have "Some cert \<in> set recipients" by auto
    with rest show ?thesis by (rule Cons.IH)
  qed
qed simp

text \<open>What \<open>Parse\<close> makes of an envelope.\<close>

lemma Encrypt_parsed:
  assumes C: "crypto_ok C" and enc: "Encrypt C P cea content recipients ent = Inr (bs, ent')" and len: "length bs < 2 ^ 31"
    and names: "\<forall>cert. Some cert \<in> set recipients \<longrightarrow> name_ok 490 (RawIssuer cert)"
  obtains env key where "Parse X bs = Inr (onlyRaw (RawEnvelopedData env))"
    "envVersion env = (if \<exists>cert. Some cert \<in> set recipients \<and> \<not> isRSA (certPublicKey cert) then 3 else 0)"
    "readable C P key recipients (envRecipientInfos env)" "eci_decrypt C (envContentInfo env) key = Inr content"
    "\<And>cert. Some cert \<in> set recipients \<Longrightarrow> \<not> isRSA (certPublicKey cert) \<Longrightarrow>
       algOID (eciAlgorithm (envContentInfo env)) \<in> {OIDEncryptionAlgorithmAES128CBC, OIDEncryptionAlgorithmAES256CBC}"
proof -
  from enc obtain key eci e1 infos v e2 inner where
    eci: "encryptContent C cea content ent = Inr ((key, eci), e1)"
    and infos: "makeRecipientInfos C P cea key recipients 0 e1 = Inr ((infos, v), e2)"
    and inner: "marshalEnv \<lparr>envVersion = v, envRecipientInfos = infos, envContentInfo = eci\<rparr> = Inr inner"
    and wrap: "wrapContent OIDEnvelopedData inner = Inr bs"
    by (auto simp: Encrypt_def)
  note small = wrapContent_body [OF wrap len]
  obtain e where e: "marshalECI eci = Inr e" "length e < 2 ^ 31" and infos_len: "\<forall>raw \<in> set infos. length (marshalRaw raw) < 2 ^ 31"
    and der: "\<And>k. (\<forall>raw \<in> set infos. der_item k (marshalRaw raw)) \<Longrightarrow> der_item (Suc k) e \<Longrightarrow> der_item (Suc (Suc k)) inner"
    by (rule marshalEnv_parts [OF inner small]) auto
  note sealed = encryptContent_sealed [OF C eci e]
  note written = makeRecipientInfos_written [OF infos C names infos_len]
  note rs = readable_infos [OF written(1)]
  have "der_item (Suc (Suc (Suc (Suc (Suc (Suc 490)))))) inner"
    using rs(2) sealed(2) by (intro der) (auto intro: der_item_mono)
  then have inner_der: "der_items 498 inner" by (intro der_items_single) (erule der_item_mono, simp)
  have "inner \<noteq> []" using inner by (auto simp: marshalEnv_def elim!: marshalSequence_InrE)
  then have parse: "Parse X bs = parseEnvelopedData inner"
    using Parse_wrapped [OF wrap len _ _ inner_der] by simp
  let ?env = "\<lparr>envVersion = v, envRecipientInfos = infos, envContentInfo = eci\<rparr>"
  have "env_ok ?env" using rs(2) sealed(1) written(2) by (simp add: env_ok_def)
  from env_dec_enc [OF this inner small, of "[]"] have env: "parseEnv inner = Inr (envNorm ?env, [])" by simp
  show thesis
  proof (rule that [of "envNorm ?env" key])
    show "Parse X bs = Inr (onlyRaw (RawEnvelopedData (envNorm ?env)))" by (simp add: parse parseEnvelopedData_def env)
    show "envVersion (envNorm ?env) = (if \<exists>cert. Some cert \<in> set recipients \<and> \<not> isRSA (certPublicKey cert) then 3 else 0)"
      using written(2) by (simp add: envNorm_def)
    show "readable C P key recipients (envRecipientInfos (envNorm ?env))" using rs(1) by (simp add: envNorm_def)
    show "eci_decrypt C (envContentInfo (envNorm ?env)) key = Inr content" using sealed(3) by (simp add: envNorm_def)
  next
    fix cert
    assume "Some cert \<in> set recipients" "\<not> isRSA (certPublicKey cert)"
    from kem_needs_cbc [OF infos this]
    show "algOID (eciAlgorithm (envContentInfo (envNorm ?env))) \<in> {OIDEncryptionAlgorithmAES128CBC, OIDEncryptionAlgorithmAES256CBC}"
      using eci by (auto simp: encryptContent_def encryptAESCBC_def cea_defs envNorm_def eciNorm_def algNorm_def)
  qed
qed

text \<open>The recipient the loop over the sorted recipients finds.\<close>

lemma selectRecipient_found:
  assumes "\<forall>r \<in> set rs. \<exists>cert \<in> certs. recipient_reads C P key cert r"
    and "r \<in> set rs" "recipient_reads C P key cert r" "isRSA (certPublicKey cert)"
  shows "\<exists>other \<in> certs. \<exists>ri pub e e'. selectRecipient rs cert = Inr ri \<and> same_recipient cert other \<and>
    certPublicKey other = RSAPublicKey pub \<and> rsa_EncryptPKCS1v15 P pub key e = Inr (riEncryptedKey ri, e')"
  using assms
proof (induction rs)
  case (Cons r' rs)
  then obtain other where other: "other \<in> certs" "recipient_reads C P key other r'" by auto
  show ?case
  proof (cases "isRSA (certPublicKey other)")
    case False
    with other have "selectRecipient (r' # rs) cert = selectRecipient rs cert"
      by (auto simp: recipient_reads_def kem_reads_def)
    moreover have "r \<noteq> r'" using Cons.prems(3,4) other False by (auto simp: recipient_reads_def kem_reads_def rsa_reads_def)
    ultimately show ?thesis using Cons by auto
  next
    case True
    with other(2) obtain pub e e' ri where ri: "rvClass r' = 0" "rvTag r' = 16" "certPublicKey other = RSAPublicKey pub"
      "rsa_EncryptPKCS1v15 P pub key e = Inr (riEncryptedKey ri, e')"
      "unmarshalAll MalformedKeyTrans KeyTransTrailingData parseRI (rvFullBytes r') = Inr ri"
      "\<And>c. isCertMatchForIssuerAndSerial c (riIssuerAndSerialNumber ri) = same_recipient c other"
      by (auto simp: recipient_reads_def rsa_reads_def)
    show ?thesis
    proof (cases "same_recipient cert other")
      case True
      with ri other(1) show ?thesis by auto
    next
      case False
      have "r \<noteq> r'"
      proof
        assume "r = r'"
        with Cons.prems(3,4) ri(5,6) have "same_recipient c other \<longleftrightarrow> same_recipient c cert" for c
          by (auto simp: recipient_reads_def rsa_reads_def)
        with False show False by (auto simp: same_recipient_def)
      qed
      with False ri Cons show ?thesis by simp
    qed
  qed
qed simp

lemma kem_reads_open:
  assumes "kem_reads C P key other r" "same_recipient cert other" "certificateKEMKey P other = Some (kem, pub)"
    "\<forall>s c e e'. mlkem_Encapsulate P kem pub e = Inr ((s, c), e') \<longrightarrow> decapsulate c = Inr s"
  shows "decryptKEMRecipients C P (kemOID kem) decapsulate (r # rest) (Some cert) = Inr key"
proof -
  from assms(1) obtain info where info: "\<And>expected decapsulate cert rest.
      decryptKEMRecipients C P expected decapsulate (r # rest) (Some cert) =
        (if same_recipient cert other then openKEMRecipient C P expected decapsulate info
         else decryptKEMRecipients C P expected decapsulate rest (Some cert))"
    "\<And>kem pub decapsulate. certificateKEMKey P other = Some (kem, pub) \<Longrightarrow>
      (\<forall>s c e e'. mlkem_Encapsulate P kem pub e = Inr ((s, c), e') \<longrightarrow> decapsulate c = Inr s) \<Longrightarrow>
      openKEMRecipient C P (kemOID kem) decapsulate info = Inr key"
    unfolding kem_reads_def by blast
  from info(2) [OF assms(3,4)] assms(2) show ?thesis unfolding info(1) by simp
qed

lemma kem_reads_skip:
  assumes "kem_reads C P key other r" "\<not> same_recipient cert other"
  shows "decryptKEMRecipients C P expected decapsulate (r # rest) (Some cert)
    = decryptKEMRecipients C P expected decapsulate rest (Some cert)"
  using assms unfolding kem_reads_def by (elim conjE exE) (simp only: if_False)

lemma decryptKEM_found:
  assumes "\<forall>r \<in> set rs. \<exists>cert \<in> certs. recipient_reads C P key cert r"
    and "r \<in> set rs" "recipient_reads C P key cert r" "\<not> isRSA (certPublicKey cert)" and cert: "cert \<in> certs"
    and "\<forall>other \<in> certs. same_recipient cert other \<longrightarrow> certificateKEMKey P other = Some (kem, pub)"
    and "\<forall>s c e e'. mlkem_Encapsulate P kem pub e = Inr ((s, c), e') \<longrightarrow> decapsulate c = Inr s"
  shows "decryptKEMRecipients C P (kemOID kem) decapsulate rs (Some cert) = Inr key"
  using assms(1-4)
proof (induction rs)
  case (Cons r' rs)
  then obtain other where other: "other \<in> certs" "recipient_reads C P key other r'" by auto
  show ?case
  proof (cases "isRSA (certPublicKey other)")
    case True
    with other have "decryptKEMRecipients C P (kemOID kem) decapsulate (r' # rs) (Some cert)
        = decryptKEMRecipients C P (kemOID kem) decapsulate rs (Some cert)"
      by (auto simp: recipient_reads_def rsa_reads_def)
    moreover have "r \<noteq> r'" using Cons.prems(3,4) other True by (auto simp: recipient_reads_def kem_reads_def rsa_reads_def)
    ultimately show ?thesis using Cons by auto
  next
    case False
    with other(2) have reads: "kem_reads C P key other r'" by (simp add: recipient_reads_def)
    show ?thesis
    proof (cases "same_recipient cert other")
      case True
      with other(1) assms(6) have "certificateKEMKey P other = Some (kem, pub)" by blast
      from kem_reads_open [OF reads True this assms(7)] show ?thesis .
    next
      case neq: False
      note skip = kem_reads_skip [OF reads neq]
      have "r \<noteq> r'"
      proof
        assume "r = r'"
        with Cons.prems(3,4) have "kem_reads C P key cert r'" by (simp add: recipient_reads_def)
        moreover have "same_recipient cert cert" by (simp add: same_recipient_def)
        moreover from this cert assms(6) have "certificateKEMKey P cert = Some (kem, pub)" by blast
        ultimately have "decryptKEMRecipients C P (kemOID kem) decapsulate [r'] (Some cert) = Inr key"
          by (rule kem_reads_open [OF _ _ _ assms(7)])
        with skip show False by simp
      qed
      with Cons skip show ?thesis by auto
    qed
  qed
qed simp

text \<open>
  C20: For every recipient with an RSA key, \<open>Encrypt\<close>, \<open>Parse\<close> and \<open>Decrypt\<close> with the matching private
  key give the content back, whatever other recipients there are and whatever order the SET puts them in,
  provided that the recipients with the same issuer and serial number have the same key.
\<close>

theorem envelope_roundtrip_rsa:
  assumes "crypto_ok C" and "Encrypt C P cea content recipients ent = Inr (bs, ent')" and "length bs < 2 ^ 31"
    and names: "\<forall>cert. Some cert \<in> set recipients \<longrightarrow> name_ok 490 (RawIssuer cert)"
    and cert: "Some cert \<in> set recipients" "certPublicKey cert = RSAPublicKey pub" and pair: "rsa_pair P pub priv"
    and unique: "\<forall>other. Some other \<in> set recipients \<longrightarrow> same_recipient cert other \<longrightarrow> certPublicKey other = certPublicKey cert"
  shows "\<exists>p7. Parse X bs = Inr p7 \<and> p7_Decrypt C P p7 (Some cert) (RSAPrivateKey priv pub) = Inr content"
proof -
  obtain env key where parse: "Parse X bs = Inr (onlyRaw (RawEnvelopedData env))"
    and rs: "readable C P key recipients (envRecipientInfos env)" and dec: "eci_decrypt C (envContentInfo env) key = Inr content"
    by (rule Encrypt_parsed [OF assms(1-3) names])
  from rs cert obtain r where r: "r \<in> set (envRecipientInfos env)" "recipient_reads C P key cert r"
    unfolding readable_def by blast
  from rs have "\<forall>r \<in> set (envRecipientInfos env). \<exists>c \<in> {c. Some c \<in> set recipients}. recipient_reads C P key c r"
    unfolding readable_def by blast
  from selectRecipient_found [OF this r] cert(2) obtain other ri pub' e e' where
    found: "selectRecipient (envRecipientInfos env) cert = Inr ri" "same_recipient cert other" "Some other \<in> set recipients"
      "certPublicKey other = RSAPublicKey pub'" "rsa_EncryptPKCS1v15 P pub' key e = Inr (riEncryptedKey ri, e')"
    by auto
  from unique found cert(2) have "pub' = pub" by simp
  with pair found(5) have "rsa_DecryptPKCS1v15 P priv (riEncryptedKey ri) = Inr key" unfolding rsa_pair_def by blast
  with parse found(1) dec show ?thesis by (simp add: p7_Decrypt_def onlyRaw_def selectRecipientForCertificate_def)
qed

lemma example_rsa:
  "\<exists>bs. Encrypt rev_crypto toy_pke EncryptionAlgorithmDESCBC [104, 105] [Some (toy_certificate (RSAPublicKey [1]) 1)]
     (replicate 16 1) = Inr (bs, []) \<and> length bs < 2 ^ 31"
  by (simp add: encode_eval Encrypt_def encryptContent_def makeRecipientInfo_def)

theorem envelope_roundtrip_rsa_witness:
  "\<exists>bs p7. Encrypt rev_crypto toy_pke EncryptionAlgorithmDESCBC [104, 105] [Some (toy_certificate (RSAPublicKey [1]) 1)]
     (replicate 16 1) = Inr (bs, []) \<and> Parse toy_x509 bs = Inr p7 \<and>
     p7_Decrypt rev_crypto toy_pke p7 (Some (toy_certificate (RSAPublicKey [1]) 1)) (RSAPrivateKey [5] [1]) = Inr [104, 105]"
proof -
  from example_rsa obtain bs where bs: "Encrypt rev_crypto toy_pke EncryptionAlgorithmDESCBC [104, 105]
      [Some (toy_certificate (RSAPublicKey [1]) 1)] (replicate 16 1) = Inr (bs, [])" "length bs < 2 ^ 31" by blast
  with envelope_roundtrip_rsa [OF rev_crypto_ok bs, where cert = "toy_certificate (RSAPublicKey [1]) 1" and pub = "[1]"
      and priv = "[5]" and X = toy_x509] toy_name
  show ?thesis by (simp add: toy_certificate_def toy_pke_ok)
qed

text \<open>
  C21: For every recipient whose certificate carries an ML-KEM key, \<open>Encrypt\<close>, \<open>Parse\<close> and \<open>Decrypt\<close> with
  the matching decapsulation key give the content back, among RSA and KEM recipients alike.
\<close>

theorem envelope_roundtrip_kem:
  assumes "crypto_ok C" and "Encrypt C P cea content recipients ent = Inr (bs, ent')" and "length bs < 2 ^ 31"
    and names: "\<forall>cert. Some cert \<in> set recipients \<longrightarrow> name_ok 490 (RawIssuer cert)"
    and cert: "Some cert \<in> set recipients" "\<not> isRSA (certPublicKey cert)" "certificateKEMKey P cert = Some (kem, pub)"
    and pair: "kem_pair P kem pub priv"
    and unique: "\<forall>other. Some other \<in> set recipients \<longrightarrow> same_recipient cert other \<longrightarrow>
      certificateKEMKey P other = certificateKEMKey P cert"
  shows "\<exists>p7. Parse X bs = Inr p7 \<and> p7_Decrypt C P p7 (Some cert) (decapsulationKey kem priv) = Inr content"
proof -
  obtain env key where parse: "Parse X bs = Inr (onlyRaw (RawEnvelopedData env))"
    and version: "envVersion env = (if \<exists>cert. Some cert \<in> set recipients \<and> \<not> isRSA (certPublicKey cert) then 3 else 0)"
    and rs: "readable C P key recipients (envRecipientInfos env)" and dec: "eci_decrypt C (envContentInfo env) key = Inr content"
    and alg: "algOID (eciAlgorithm (envContentInfo env)) \<in> {OIDEncryptionAlgorithmAES128CBC, OIDEncryptionAlgorithmAES256CBC}"
    by (rule Encrypt_parsed [OF assms(1-3) names]) (use cert in blast)
  from rs cert obtain r where r: "r \<in> set (envRecipientInfos env)" "recipient_reads C P key cert r"
    unfolding readable_def by blast
  from rs have all: "\<forall>r \<in> set (envRecipientInfos env). \<exists>c \<in> {c. Some c \<in> set recipients}. recipient_reads C P key c r"
    unfolding readable_def by blast
  have "decryptKEMRecipients C P (kemOID kem) (mlkem_Decapsulate P kem priv) (envRecipientInfos env) (Some cert) = Inr key"
    by (rule decryptKEM_found [OF all r cert(2)]) (use cert unique pair in \<open>auto simp: kem_pair_def\<close>)
  then have "decryptKEMRecipientKey C P (envRecipientInfos env) (Some cert) (decapsulationKey kem priv) = Inr key"
    by (cases kem) (simp_all add: decryptKEMRecipientKey_def mlKEMDecapsulator_def)
  moreover have "envVersion env = 3" using version cert by auto
  ultimately show ?thesis
    using parse dec alg by (cases kem) (auto simp: p7_Decrypt_def onlyRaw_def mlKEMDecapsulator_def)
qed

lemma example_kem:
  "\<exists>bs. Encrypt rev_crypto toy_pke EncryptionAlgorithmAES128CBC [104, 105]
     [Some (toy_certificate (EncapsulationKey768 [1]) 1)] (replicate 32 1) = Inr (bs, []) \<and> length bs < 2 ^ 31"
proof -
  have key: "aes_key_ok (rev_crypto, replicate 32 0)" "wrappable_key (replicate 16 1)"
    using rev_crypto_ok by (simp_all add: aes_key_ok_def wrappable_key_def)
  from aes_kw.wrap_total [OF this] obtain ek where ek: "aesKeyWrap rev_crypto (replicate 32 0) (replicate 16 1) = Inr ek"
    by auto
  from length_aesKeyWrap [OF key(1) this] have "length ek = 24" by simp
  with ek show ?thesis by (simp add: encode_eval Encrypt_def encryptContent_def makeRecipientInfo_def)
qed

theorem envelope_roundtrip_kem_witness:
  "\<exists>bs p7. Encrypt rev_crypto toy_pke EncryptionAlgorithmAES128CBC [104, 105]
     [Some (toy_certificate (EncapsulationKey768 [1]) 1)] (replicate 32 1) = Inr (bs, []) \<and> Parse toy_x509 bs = Inr p7 \<and>
     p7_Decrypt rev_crypto toy_pke p7 (Some (toy_certificate (EncapsulationKey768 [1]) 1))
       (decapsulationKey MLKEM768 [5]) = Inr [104, 105]"
proof -
  from example_kem obtain bs where bs: "Encrypt rev_crypto toy_pke EncryptionAlgorithmAES128CBC [104, 105]
      [Some (toy_certificate (EncapsulationKey768 [1]) 1)] (replicate 32 1) = Inr (bs, [])" "length bs < 2 ^ 31" by blast
  with envelope_roundtrip_kem [OF rev_crypto_ok bs, where cert = "toy_certificate (EncapsulationKey768 [1]) 1"
      and kem = MLKEM768 and pub = "[1]" and priv = "[5]" and X = toy_x509] toy_name
  show ?thesis by (simp add: toy_certificate_def toy_pke_ok certificateKEMKey_def)
qed

lemma selectRecipient_none:
  assumes "\<forall>r \<in> set rs. \<exists>other \<in> certs. recipient_reads C P key other r" "\<forall>other \<in> certs. \<not> same_recipient cert other"
  shows "selectRecipient rs cert = Inl (RecipientError NoRecipientForCertificate)"
  using assms
proof (induction rs)
  case (Cons r rs)
  then obtain other where "other \<in> certs" "recipient_reads C P key other r" by auto
  with Cons show ?case by (auto simp: recipient_reads_def rsa_reads_def kem_reads_def split: if_split_asm)
qed simp

lemma decryptKEM_none:
  assumes "\<forall>r \<in> set rs. \<exists>other \<in> certs. recipient_reads C P key other r" "\<forall>other \<in> certs. \<not> same_recipient cert other"
  shows "decryptKEMRecipients C P expected decapsulate rs (Some cert) = Inl (RecipientError NoRecipientForCertificate)"
  using assms
proof (induction rs)
  case (Cons r rs)
  then obtain other where other: "other \<in> certs" "recipient_reads C P key other r" by auto
  with Cons.prems(2) have "\<not> same_recipient cert other" by blast
  show ?case
  proof (cases "isRSA (certPublicKey other)")
    case True
    with Cons other show ?thesis by (auto simp: recipient_reads_def rsa_reads_def)
  next
    case False
    with other have "kem_reads C P key other r" by (simp add: recipient_reads_def)
    from kem_reads_skip [OF this \<open>\<not> same_recipient cert other\<close>] Cons show ?thesis by simp
  qed
qed simp

text \<open>
  C23: A certificate that no recipient shares issuer and serial number with opens nothing: \<open>Decrypt\<close> ends in
  an error for every private key, before any key is used on the content.
\<close>

theorem envelope_non_recipient:
  assumes "crypto_ok C" and "Encrypt C P cea content recipients ent = Inr (bs, ent')" and "length bs < 2 ^ 31"
    and names: "\<forall>cert. Some cert \<in> set recipients \<longrightarrow> name_ok 490 (RawIssuer cert)"
    and other: "\<forall>other. Some other \<in> set recipients \<longrightarrow> \<not> same_recipient cert other"
  shows "\<exists>p7 e. Parse X bs = Inr p7 \<and> p7_Decrypt C P p7 (Some cert) pkey = Inl e \<and>
    e \<in> {RecipientError NoRecipientForCertificate, ErrUnsupportedAlgorithm, RecipientError EnvelopeVersionNot3,
      RecipientError KEMRequiresAESCBC}"
proof -
  obtain env key where parse: "Parse X bs = Inr (onlyRaw (RawEnvelopedData env))"
    and rs: "readable C P key recipients (envRecipientInfos env)"
    by (rule Encrypt_parsed [OF assms(1-3) names])
  let ?certs = "{c. Some c \<in> set recipients}"
  have reads: "\<forall>r \<in> set (envRecipientInfos env). \<exists>c \<in> ?certs. recipient_reads C P key c r"
    using rs unfolding readable_def by blast
  have "\<forall>other \<in> ?certs. \<not> same_recipient cert other" using other by blast
  note none = selectRecipient_none [OF reads this] decryptKEM_none [OF reads this]
  show ?thesis
    using parse none
    by (cases pkey) (auto simp: p7_Decrypt_def onlyRaw_def selectRecipientForCertificate_def mlKEMDecapsulator_def
        decryptKEMRecipientKey_def)
qed

theorem envelope_non_recipient_witness:
  "\<exists>bs p7 e. Encrypt rev_crypto toy_pke EncryptionAlgorithmDESCBC [104, 105] [Some (toy_certificate (RSAPublicKey [1]) 1)]
     (replicate 16 1) = Inr (bs, []) \<and> Parse toy_x509 bs = Inr p7 \<and>
     p7_Decrypt rev_crypto toy_pke p7 (Some (toy_certificate (RSAPublicKey [1]) 2)) (RSAPrivateKey [5] [1]) = Inl e"
proof -
  from example_rsa obtain bs where bs: "Encrypt rev_crypto toy_pke EncryptionAlgorithmDESCBC [104, 105]
      [Some (toy_certificate (RSAPublicKey [1]) 1)] (replicate 16 1) = Inr (bs, [])" "length bs < 2 ^ 31" by blast
  with envelope_non_recipient [OF rev_crypto_ok bs, where cert = "toy_certificate (RSAPublicKey [1]) 2"
      and pkey = "RSAPrivateKey [5] [1]" and X = toy_x509] toy_name
  show ?thesis by (fastforce simp: toy_certificate_def same_recipient_def)
qed

text \<open>
  C24: A nil certificate in the list of recipients makes \<open>Encrypt\<close> panic as soon as the loop reaches it: the
  type assertion on its public key comes before the check for nil in \<open>makeKEMRecipientInfo\<close>.
\<close>

theorem nil_recipient_panics:
  assumes "encryptContent C cea content ent = Inr ((key, eci), ent1)"
    and "makeRecipientInfos C P cea key before 0 ent1 = Inr ((infos, v), ent2)"
  shows "Encrypt C P cea content (before @ None # after) ent = Inl PanicNil"
proof -
  have "makeRecipientInfos C P cea key (before @ None # after) v0 e = Inl PanicNil"
    if "makeRecipientInfos C P cea key before v0 e = Inr ((infos', v'), e')" for v0 e infos' v' e'
    using that
  proof (induction "before" arbitrary: v0 e infos')
    case Nil
    then show ?case by (simp add: makeRecipientInfo_def)
  next
    case (Cons r rs)
    then show ?case by fastforce
  qed
  from this [OF assms(2)] assms(1) show ?thesis by (simp add: Encrypt_def)
qed

theorem nil_recipient_panics_witness:
  "Encrypt rev_crypto toy_pke EncryptionAlgorithmDESCBC [104, 105] ([] @ [None]) (replicate 16 1) = Inl PanicNil"
proof -
  have "\<exists>key eci e. encryptContent rev_crypto EncryptionAlgorithmDESCBC [104, 105] (replicate 16 1) = Inr ((key, eci), e)"
    by (simp add: encode_eval encryptContent_def)
  then show ?thesis using nil_recipient_panics [of rev_crypto EncryptionAlgorithmDESCBC "[104, 105]" "replicate 16 1" _ _ _ toy_pke "[]"]
    by fastforce
qed

end
