(* ===== verification/Attributes.thy ===== *)
theory Attributes
  imports Evaluation "HOL-Library.Multiset"
begin

text \<open>
  The attributes a signer adds (\<open>attributes\<close> of \<open>pkcs7.go\<close>), how they are encoded and sorted, and how
  one of them is found and decoded again.
\<close>

section \<open>The library\<close>

text \<open>
  Hashing, signing and times. \<open>time_Unmarshal\<close> is \<open>asn1.Unmarshal\<close> into a \<open>time.Time\<close>: it is given what
  the variable holds and returns what it holds afterwards, since a value that cannot be read may
  overwrite it all the same.
\<close>

datatype SignerOpts = HashOpts "Hash option" | MLDSAOptions

record signing =
  hash_Sum :: "Hash \<Rightarrow> bytes \<Rightarrow> bytes"
  signer_Sign :: "PrivateKey \<Rightarrow> bytes \<Rightarrow> SignerOpts \<Rightarrow> entropy \<Rightarrow> (bytes \<times> entropy) result"
  dsa_Sign :: "bytes \<Rightarrow> bytes \<Rightarrow> entropy \<Rightarrow> ((int \<times> int) \<times> entropy) result"
  time_Marshal :: "int \<Rightarrow> bytes result"
  time_Unmarshal :: "bytes \<Rightarrow> int \<Rightarrow> int \<times> unit result"

text \<open>A toy instance for witnesses: a hash is the length, a signature is the hash.\<close>

definition toy_signing :: signing where
  "toy_signing = \<lparr>hash_Sum = \<lambda>_ data. [word_of_nat (length data)],
     signer_Sign = \<lambda>_ data opts ent. Inr (case opts of HashOpts (Some _) \<Rightarrow> data | _ \<Rightarrow> [word_of_nat (length data)], ent),
     dsa_Sign = \<lambda>_ _ ent. Inr ((1, 1), ent), time_Marshal = \<lambda>t. Inr (marshalInt t),
     time_Unmarshal = \<lambda>bs out. (case parseInt bs of Inl e \<Rightarrow> (out, Inl e) | Inr (t, _) \<Rightarrow> (t, Inr ()))\<rparr>"

section \<open>Adding attributes\<close>

text \<open>The values the package itself adds, and any other, which stands for what \<open>asn1.Marshal\<close> makes of it.\<close>

datatype attributeValue =
    ValueOID oid
  | ValueOctets bytes
  | ValueTime int
  | ValueOther "bytes result"

fun marshalValue :: "signing \<Rightarrow> attributeValue \<Rightarrow> bytes result" where
  "marshalValue S (ValueOID oid) = marshalOID oid"
| "marshalValue S (ValueOctets bs) = Inr (marshalOctets bs)"
| "marshalValue S (ValueTime t) = time_Marshal S t"
| "marshalValue S (ValueOther r) = r"

record Attribute =
  AttributeType :: oid
  AttributeValue :: attributeValue

record attributes =
  attrTypes :: "oid list"
  attrValues :: "attributeValue list"

definition noAttributes :: attributes where
  "noAttributes = \<lparr>attrTypes = [], attrValues = []\<rparr>"

definition attributes_Add :: "oid \<Rightarrow> attributeValue \<Rightarrow> attributes \<Rightarrow> attributes" where
  "attributes_Add t v attrs = \<lparr>attrTypes = attrTypes attrs @ [t], attrValues = attrValues attrs @ [v]\<rparr>"

section \<open>Encoding and sorting\<close>

record sortableAttribute =
  SortKey :: bytes
  sortedAttribute :: attribute

definition sortable :: "signing \<Rightarrow> oid \<Rightarrow> attributeValue \<Rightarrow> sortableAttribute result" where
  "sortable S type value =
     and_then (marshalValue S value) (\<lambda>asn1Value.
     let attr = \<lparr>attrType = type, attrValue = rawOf 0 17 True asn1Value\<rparr> in
     and_then (marshalAttribute attr) (\<lambda>encoded. Inr \<lparr>SortKey = encoded, sortedAttribute = attr\<rparr>))"

text \<open>
  \<open>sort.Sort\<close> on the encodings. It is not stable, but two attributes with one encoding are equal, so
  there is one result (\<open>sorted_attributes_unique\<close> below).
\<close>

definition ForMarshalling :: "signing \<Rightarrow> attributes \<Rightarrow> attribute list result" where
  "ForMarshalling S attrs =
     and_then (allResults (map (\<lambda>(t, v). sortable S t v) (zip (attrTypes attrs) (attrValues attrs)))) (\<lambda>sortables.
       Inr (map sortedAttribute (sort_key SortKey sortables)))"

text \<open>The SET of the attributes, in the order of their encodings: what a signature covers.\<close>

definition marshalAttributes :: "attribute list \<Rightarrow> bytes result" where
  "marshalAttributes attrs =
     and_then (marshalSequence [marshalSetOf (map marshalAttribute attrs)]) (\<lambda>encodedAttributes.
     and_then (parseRaw None encodedAttributes) (\<lambda>(raw, _). Inr (rvBytes raw)))"

text \<open>Decoding into a variable; the result says whether it succeeded.\<close>

definition unmarshalInto :: "'a decoder \<Rightarrow> bytes \<Rightarrow> 'a \<Rightarrow> 'a \<times> unit result" where
  "unmarshalInto dec bs out = (case dec bs of Inl e \<Rightarrow> (out, Inl e) | Inr (v, _) \<Rightarrow> (v, Inr ()))"

fun unmarshalAttribute ::
  "attribute list \<Rightarrow> oid \<Rightarrow> (bytes \<Rightarrow> 'a \<Rightarrow> 'a \<times> unit result) \<Rightarrow> 'a \<Rightarrow> 'a \<times> unit result" where
  "unmarshalAttribute [] t unmarshal out = (out, Inl (SignError AttributeNotFound))"
| "unmarshalAttribute (attr # attrs) t unmarshal out =
     (if attrType attr = t then unmarshal (rvBytes (attrValue attr)) out
      else unmarshalAttribute attrs t unmarshal out)"

section \<open>Laws\<close>

lemma allResults_perm:
  assumes "mset rs = mset rs'" "allResults rs = Inr vs"
  shows "\<exists>vs'. allResults rs' = Inr vs' \<and> mset vs' = mset vs"
proof -
  from assms have "\<forall>r \<in> set rs. \<exists>v. r = Inr v" and vs: "rs = map Inr vs" by (auto simp: allResults_Inr_iff)
  with assms(1) have "\<forall>r \<in> set rs'. \<exists>v. r = Inr v" by (metis set_mset_mset)
  then have "rs' = map Inr (map projr rs')" by (induction rs') auto
  moreover from this have "mset (map projr rs') = mset (map projr rs)" using assms(1) by (simp add: mset_map)
  ultimately show ?thesis using vs by (intro exI [of _ "map projr rs'"]) (simp add: allResults_Inr_iff o_def)
qed

lemma marshalSetOf_perm:
  assumes "mset rs = mset rs'" "marshalSetOf rs = Inr bs"
  shows "marshalSetOf rs' = Inr bs"
proof -
  from assms(2) obtain vs where vs: "allResults rs = Inr vs" "bs = tlv 0 True 17 (concat (sort vs))"
    by (auto simp: marshalSetOf_def setBody_def)
  from allResults_perm [OF assms(1) vs(1)] obtain vs' where "allResults rs' = Inr vs'" "mset vs' = mset vs" by blast
  moreover from this(2) have "sort vs' = sort vs" by (metis sorted_list_of_multiset_mset)
  ultimately show ?thesis using vs(2) by (simp add: marshalSetOf_def setBody_def)
qed

text \<open>The two slices of \<open>attributes\<close> always have one length; together they are a list of pairs.\<close>

definition wf_attributes :: "attributes \<Rightarrow> bool" where
  "wf_attributes attrs \<longleftrightarrow> length (attrTypes attrs) = length (attrValues attrs)"

definition pairs :: "attributes \<Rightarrow> (oid \<times> attributeValue) list" where
  "pairs attrs = zip (attrTypes attrs) (attrValues attrs)"

lemma noAttributes_simps [simp]: "wf_attributes noAttributes" "pairs noAttributes = []"
  by (simp_all add: wf_attributes_def noAttributes_def pairs_def)

lemma Add_simps [simp]:
  "wf_attributes (attributes_Add t v attrs) = wf_attributes attrs"
  "wf_attributes attrs \<Longrightarrow> pairs (attributes_Add t v attrs) = pairs attrs @ [(t, v)]"
  by (simp_all add: wf_attributes_def attributes_Add_def pairs_def)

text \<open>The attribute a pair becomes.\<close>

definition encodesTo :: "signing \<Rightarrow> oid \<times> attributeValue \<Rightarrow> attribute \<Rightarrow> bool" where
  "encodesTo S p a \<longleftrightarrow> (\<exists>e k. marshalValue S (snd p) = Inr e \<and> a = \<lparr>attrType = fst p, attrValue = rawOf 0 17 True e\<rparr> \<and>
     marshalAttribute a = Inr k)"

lemma sortable_Inr:
  "sortable S t v = Inr x \<longleftrightarrow> encodesTo S (t, v) (sortedAttribute x) \<and> marshalAttribute (sortedAttribute x) = Inr (SortKey x)"
  by (cases x) (auto simp: sortable_def encodesTo_def Let_def and_then_Inr_iff)

lemma encodesTo_unique: "encodesTo S p a \<Longrightarrow> encodesTo S p b \<Longrightarrow> a = b"
  by (auto simp: encodesTo_def)

lemma allResults_list_all2: "allResults (map f xs) = Inr ys \<longleftrightarrow> list_all2 (\<lambda>x y. f x = Inr y) xs ys"
  by (induction xs arbitrary: ys) (auto simp: and_then_Inr_iff list_all2_Cons1)

lemma ForMarshalling_Inr:
  assumes "ForMarshalling S attrs = Inr as"
  obtains xs where "list_all2 (\<lambda>p x. sortable S (fst p) (snd p) = Inr x) (pairs attrs) xs"
    "as = map sortedAttribute (sort_key SortKey xs)"
  using assms by (auto simp: ForMarshalling_def allResults_list_all2 case_prod_beta simp flip: pairs_def)

lemma list_all2_setD:
  assumes "list_all2 R xs ys"
  shows "\<forall>y \<in> set ys. \<exists>x \<in> set xs. R x y" "\<forall>x \<in> set xs. \<exists>y \<in> set ys. R x y"
  using assms by (induction rule: list_all2_induct) auto

lemma list_all2_map_eq: "list_all2 R xs ys \<Longrightarrow> (\<And>x y. R x y \<Longrightarrow> f x = g y) \<Longrightarrow> map f xs = map g ys"
  by (induction rule: list_all2_induct) simp_all

lemma ForMarshalling_encodes:
  assumes "ForMarshalling S attrs = Inr as"
  shows "\<forall>a \<in> set as. \<exists>p \<in> set (pairs attrs). encodesTo S p a" "\<forall>p \<in> set (pairs attrs). \<exists>a \<in> set as. encodesTo S p a"
    "mset (map attrType as) = mset (map fst (pairs attrs))" "sorted (map (projr \<circ> marshalAttribute) as)"
proof -
  from assms obtain xs where xs: "list_all2 (\<lambda>p x. sortable S (fst p) (snd p) = Inr x) (pairs attrs) xs"
    "as = map sortedAttribute (sort_key SortKey xs)" by (rule ForMarshalling_Inr)
  have enc: "list_all2 (\<lambda>p x. encodesTo S p (sortedAttribute x)) (pairs attrs) xs"
    by (rule list_all2_mono [OF xs(1)]) (simp add: sortable_Inr)
  show "\<forall>a \<in> set as. \<exists>p \<in> set (pairs attrs). encodesTo S p a"
    using list_all2_setD(1) [OF enc] unfolding xs(2) by simp
  show "\<forall>p \<in> set (pairs attrs). \<exists>a \<in> set as. encodesTo S p a"
    using list_all2_setD(2) [OF enc] unfolding xs(2) by simp
  have "attrType a = fst p" if "encodesTo S p a" for p a using that by (auto simp: encodesTo_def)
  then have "map fst (pairs attrs) = map (\<lambda>x. attrType (sortedAttribute x)) xs"
    by (intro list_all2_map_eq [OF enc]) simp
  then show "mset (map attrType as) = mset (map fst (pairs attrs))"
    unfolding xs(2) by (simp add: o_def)
  have "\<forall>x \<in> set xs. projr (marshalAttribute (sortedAttribute x)) = SortKey x"
    using list_all2_setD(1) [OF xs(1)] by (auto simp: sortable_Inr)
  then have "map (projr \<circ> marshalAttribute) as = map SortKey (sort_key SortKey xs)" unfolding xs(2) by simp
  then show "sorted (map (projr \<circ> marshalAttribute) as)" by simp
qed

text \<open>Attributes that can be read back: the encoding has one type and one value.\<close>

lemma encodesTo_ok:
  assumes "encodesTo S p a" "oid_ok (fst p)" "marshalAttribute a = Inr k" "length k < 2 ^ 31"
  shows "attr_ok a" "\<exists>e. marshalValue S (snd p) = Inr e \<and> length e < 2 ^ 31 \<and> rvBytes (attrValue (attrNorm a)) = e"
proof -
  from assms(1) obtain e where e: "marshalValue S (snd p) = Inr e"
    and a: "a = \<lparr>attrType = fst p, attrValue = rawOf 0 17 True e\<rparr>" by (auto simp: encodesTo_def)
  from assms(3) a obtain t where "k = tlv 0 True 16 (t @ tlv 0 True 17 e)"
    by (auto simp: marshalAttribute_def marshalSequence_def)
  from length_body [OF assms(4) [unfolded this]] have "length (tlv 0 True 17 e) < 2 ^ 31" by simp
  then have len: "length e < 2 ^ 31" by (rule length_body)
  with a assms(2) show "attr_ok a" by (simp add: attr_ok_def element_tlv)
  from len a e show "\<exists>e. marshalValue S (snd p) = Inr e \<and> length e < 2 ^ 31 \<and> rvBytes (attrValue (attrNorm a)) = e"
    by (simp add: attrNorm_def rawElement_def element_tlv)
qed

text \<open>Two short attributes with one encoding are the same attribute.\<close>

lemma sortable_inj:
  assumes "encodesTo S p a" "encodesTo S q b" "oid_ok (fst p)" "oid_ok (fst q)"
    and k: "marshalAttribute a = Inr k" "marshalAttribute b = Inr k" "length k < 2 ^ 31"
  shows "a = b"
proof -
  note ok = encodesTo_ok [OF assms(1,3) k(1,3)] encodesTo_ok [OF assms(2,4) k(2,3)]
  have "attrNorm a = attrNorm b"
    using element_lawD(2) [OF attr_law [OF ok(1)] k(1,3), of "[]"] element_lawD(2) [OF attr_law [OF ok(3)] k(2,3), of "[]"]
    by simp
  then have "attrType a = attrType b" by (simp add: attrNorm_def)
  moreover obtain e where "a = \<lparr>attrType = fst p, attrValue = rawOf 0 17 True e\<rparr>" "marshalValue S (snd p) = Inr e"
    using assms(1) unfolding encodesTo_def by blast
  moreover obtain f where "b = \<lparr>attrType = fst q, attrValue = rawOf 0 17 True f\<rparr>" "marshalValue S (snd q) = Inr f"
    using assms(2) unfolding encodesTo_def by blast
  moreover have "\<exists>e. marshalValue S (snd p) = Inr e \<and> marshalValue S (snd q) = Inr e"
    using ok(2,4) \<open>attrNorm a = attrNorm b\<close> by metis
  ultimately show ?thesis by simp
qed

section \<open>Lookup\<close>

definition short_attributes :: "attribute list \<Rightarrow> bool" where
  "short_attributes attrs \<longleftrightarrow> (\<forall>a \<in> set attrs. \<forall>k. marshalAttribute a = Inr k \<longrightarrow> length k < 2 ^ 31)"

lemma unmarshalAttribute_found:
  assumes "a \<in> set attrs" "attrType a = t" "\<And>b. b \<in> set attrs \<Longrightarrow> attrType b = t \<Longrightarrow> b = a"
  shows "unmarshalAttribute attrs t unmarshal out = unmarshal (rvBytes (attrValue a)) out"
  using assms(1,3)
proof (induction attrs)
  case (Cons b attrs)
  show ?case
  proof (cases "attrType b = t")
    case True
    have "b = a" by (rule Cons.prems(2)) (use True in simp_all)
    with True show ?thesis by simp
  next
    case False
    with Cons.prems(1) assms(2) have "a \<in> set attrs" by auto
    from Cons.IH [OF this] Cons.prems(2) have "unmarshalAttribute attrs t unmarshal out = unmarshal (rvBytes (attrValue a)) out"
      by (meson list.set_intros(2))
    with False show ?thesis by simp
  qed
qed simp

lemma unmarshalAttribute_missing:
  "\<forall>a \<in> set attrs. attrType a \<noteq> t \<Longrightarrow> unmarshalAttribute attrs t unmarshal out = (out, Inl (SignError AttributeNotFound))"
  by (induction attrs) auto

lemma ForMarshalling_ok:
  assumes "ForMarshalling S attrs = Inr as" "\<forall>p \<in> set (pairs attrs). oid_ok (fst p)" "short_attributes as"
  shows "\<forall>a \<in> set as. attr_ok a"
proof
  fix a
  assume a: "a \<in> set as"
  with ForMarshalling_encodes(1) [OF assms(1)] obtain p where p: "p \<in> set (pairs attrs)" "encodesTo S p a" by blast
  from p(2) obtain k where k: "marshalAttribute a = Inr k" by (auto simp: encodesTo_def)
  with a assms(3) have "length k < 2 ^ 31" by (simp add: short_attributes_def)
  with p assms(2) k show "attr_ok a" by (intro encodesTo_ok(1)) auto
qed

text \<open>A type that was added once is found with its value, one that was not added is not found.\<close>

lemma ForMarshalling_lookup:
  assumes "ForMarshalling S attrs = Inr as" "\<forall>p \<in> set (pairs attrs). oid_ok (fst p)" "short_attributes as"
    and p: "(t, v) \<in> set (pairs attrs)" "\<forall>q \<in> set (pairs attrs). fst q = t \<longrightarrow> q = (t, v)"
  shows "\<exists>e. marshalValue S v = Inr e \<and> length e < 2 ^ 31 \<and>
    unmarshalAttribute (map attrNorm as) t unmarshal out = unmarshal e out"
proof -
  from ForMarshalling_encodes(2) [OF assms(1)] p(1) obtain a where a: "a \<in> set as" "encodesTo S (t, v) a" by blast
  then obtain k where k: "marshalAttribute a = Inr k" by (auto simp: encodesTo_def)
  with a assms(3) have "length k < 2 ^ 31" by (simp add: short_attributes_def)
  moreover have "oid_ok (fst (t, v))" using assms(2) p(1) by (rule bspec)
  ultimately obtain e where e: "marshalValue S v = Inr e" "length e < 2 ^ 31" "rvBytes (attrValue (attrNorm a)) = e"
    using encodesTo_ok(2) [OF a(2) _ k] by auto
  have "b = a" if b: "b \<in> set as" "attrType b = t" for b
  proof -
    from ForMarshalling_encodes(1) [OF assms(1)] b(1) obtain q where q: "q \<in> set (pairs attrs)" "encodesTo S q b" by blast
    from q(2) b(2) have "fst q = t" by (auto simp: encodesTo_def)
    with q(1) p(2) have "q = (t, v)" by blast
    with q(2) a(2) show ?thesis using encodesTo_unique by blast
  qed
  moreover have "attrType (attrNorm b) = attrType b" for b by (simp add: attrNorm_def)
  ultimately have one: "c = attrNorm a" if "c \<in> set (map attrNorm as)" "attrType c = t" for c using that by auto
  have "attrNorm a \<in> set (map attrNorm as)" using a(1) by simp
  moreover have "attrType (attrNorm a) = t" using a(2) by (auto simp: attrNorm_def encodesTo_def)
  ultimately have "unmarshalAttribute (map attrNorm as) t unmarshal out = unmarshal (rvBytes (attrValue (attrNorm a))) out"
    by (rule unmarshalAttribute_found) (rule one)
  with e show ?thesis by blast
qed

lemma ForMarshalling_missing:
  assumes "ForMarshalling S attrs = Inr as" "\<forall>q \<in> set (pairs attrs). fst q \<noteq> t"
  shows "unmarshalAttribute (map attrNorm as) t unmarshal out = (out, Inl (SignError AttributeNotFound))"
proof -
  have "attrType (attrNorm a) \<noteq> t" if "a \<in> set as" for a
    using ForMarshalling_encodes(1) [OF assms(1)] that assms(2) by (fastforce simp: encodesTo_def attrNorm_def)
  then show ?thesis by (intro unmarshalAttribute_missing) auto
qed

section \<open>What is signed\<close>

lemma marshalAttributes_set:
  assumes "marshalSetOf (map marshalAttribute attrs) = Inr bs" "length bs < 2 ^ 31"
  shows "marshalAttributes attrs = Inr bs"
proof -
  have "parseRaw None (tlv 0 True 16 bs) = Inr (rawElement (tlv 0 True 16 bs), [])"
    using assms(2) parseRaw_element [of "tlv 0 True 16 bs" None "[]"] by (simp add: element_tlv)
  with assms show ?thesis by (simp add: marshalAttributes_def marshalSequence_def rawElement_def element_tlv)
qed

lemma marshalAttributes_attrNorm:
  "\<forall>a \<in> set attrs. attr_ok a \<Longrightarrow> marshalAttributes (map attrNorm attrs) = marshalAttributes attrs"
  by (simp add: marshalAttributes_def marshal_attrNorm cong: map_cong)

lemma marshalAttributes_perm:
  assumes "mset attrs = mset attrs'"
  shows "marshalAttributes attrs = marshalAttributes attrs' \<or>
    (\<exists>e e'. marshalAttributes attrs = Inl e \<and> marshalAttributes attrs' = Inl e')"
proof -
  have eq: "mset (map marshalAttribute attrs) = mset (map marshalAttribute attrs')" using assms by simp
  show ?thesis
  proof (cases "marshalSetOf (map marshalAttribute attrs)")
    case (Inr bs)
    from Inr marshalSetOf_perm [OF eq Inr] show ?thesis by (simp add: marshalAttributes_def)
  next
    case (Inl e)
    moreover have "\<exists>e'. marshalSetOf (map marshalAttribute attrs') = Inl e'"
      using marshalSetOf_perm [OF eq [symmetric]] Inl by (cases "marshalSetOf (map marshalAttribute attrs')") auto
    ultimately show ?thesis by (auto simp: marshalAttributes_def marshalSequence_def)
  qed
qed

section \<open>Properties\<close>

text \<open>
  C28: The order in which attributes are added never matters: any reordering of the calls of \<open>Add\<close> gives
  the same sorted list, so that an unstable sort has one possible result, and that list is in the
  order of the encodings, as DER wants it.
\<close>

theorem ForMarshalling_order:
  assumes "ForMarshalling S attrs = Inr as" and perm: "mset (pairs attrs') = mset (pairs attrs)"
    and ok: "\<forall>p \<in> set (pairs attrs). oid_ok (fst p)" and short: "short_attributes as"
  shows "ForMarshalling S attrs' = Inr as \<and> sorted (map (projr \<circ> marshalAttribute) as)"
proof -
  let ?f = "\<lambda>p. sortable S (fst p) (snd p)"
  have unfold: "ForMarshalling S a = and_then (allResults (map ?f (pairs a))) (\<lambda>xs. Inr (map sortedAttribute (sort_key SortKey xs)))" for a
    by (simp add: ForMarshalling_def pairs_def case_prod_beta')
  from assms(1) obtain xs where xs: "allResults (map ?f (pairs attrs)) = Inr xs" "as = map sortedAttribute (sort_key SortKey xs)"
    by (auto simp: unfold)
  have "mset (map ?f (pairs attrs)) = mset (map ?f (pairs attrs'))" using perm by (simp only: mset_map)
  from allResults_perm [OF this xs(1)] obtain ys where ys: "allResults (map ?f (pairs attrs')) = Inr ys" "mset ys = mset xs" by blast
  have inj: "x = y" if "x \<in> set xs" "y \<in> set xs" "SortKey x = SortKey y" for x y
  proof -
    from xs(1) have all: "list_all2 (\<lambda>p x. ?f p = Inr x) (pairs attrs) xs" by (simp add: allResults_list_all2)
    have "\<exists>p \<in> set (pairs attrs). encodesTo S p (sortedAttribute z) \<and> marshalAttribute (sortedAttribute z) = Inr (SortKey z)"
      if "z \<in> set xs" for z
      using list_all2_setD(1) [OF all] that by (auto simp: sortable_Inr)
    from this [OF that(1)] this [OF that(2)] that(3) obtain p q where
      p: "p \<in> set (pairs attrs)" "encodesTo S p (sortedAttribute x)" "marshalAttribute (sortedAttribute x) = Inr (SortKey x)"
      and q: "q \<in> set (pairs attrs)" "encodesTo S q (sortedAttribute y)" "marshalAttribute (sortedAttribute y) = Inr (SortKey x)"
      by auto
    have "length (SortKey x) < 2 ^ 31" using short that(1) p(3) xs(2) by (auto simp: short_attributes_def)
    with p q ok have "sortedAttribute x = sortedAttribute y" by (intro sortable_inj [OF p(2) q(2)]) auto
    with that(3) show "x = y" by simp
  qed
  have "sort_key SortKey ys = sort_key SortKey xs"
  proof (rule properties_for_sort_key)
    show "mset (sort_key SortKey xs) = mset ys" using ys(2) by simp
    have set: "set ys = set xs" using ys(2) by (metis set_mset_mset)
    fix k
    assume k: "k \<in> set (sort_key SortKey xs)"
    have "filter (\<lambda>x. SortKey k = SortKey x) zs = replicate (count (mset zs) k) k" if "set zs = set xs" for zs
    proof -
      have "filter (\<lambda>x. SortKey k = SortKey x) zs = filter (\<lambda>x. k = x) zs"
        using inj k that by (intro filter_cong) auto
      then show ?thesis by (simp add: replicate_count_mset_eq_filter_eq)
    qed
    from this [of ys] this [of "sort_key SortKey xs"] ys(2) set
    show "filter (\<lambda>x. SortKey k = SortKey x) (sort_key SortKey xs) = filter (\<lambda>x. SortKey k = SortKey x) ys"
      by simp
  qed simp
  with ys(1) xs(2) have "ForMarshalling S attrs' = Inr as" by (simp add: unfold)
  with ForMarshalling_encodes(4) [OF assms(1)] show ?thesis by blast
qed

theorem ForMarshalling_order_witness:
  "\<exists>as. ForMarshalling toy_signing (attributes_Add OIDAttributeMessageDigest (ValueOctets [1])
       (attributes_Add OIDAttributeContentType (ValueOID OIDData) noAttributes)) = Inr as \<and>
     ForMarshalling toy_signing (attributes_Add OIDAttributeContentType (ValueOID OIDData)
       (attributes_Add OIDAttributeMessageDigest (ValueOctets [1]) noAttributes)) = Inr as \<and>
     sorted (map (projr \<circ> marshalAttribute) as)"
proof -
  let ?a = "attributes_Add OIDAttributeMessageDigest (ValueOctets [1])
    (attributes_Add OIDAttributeContentType (ValueOID OIDData) noAttributes)"
  let ?b = "attributes_Add OIDAttributeContentType (ValueOID OIDData)
    (attributes_Add OIDAttributeMessageDigest (ValueOctets [1]) noAttributes)"
  have "\<exists>as. ForMarshalling toy_signing ?a = Inr as \<and> short_attributes as"
    by (simp add: ForMarshalling_def sortable_def marshalAttribute_def short_attributes_def encode_eval
        attributes_Add_def noAttributes_def)
  then obtain as where as: "ForMarshalling toy_signing ?a = Inr as" "short_attributes as" by blast
  from ForMarshalling_order [OF this(1), of ?b] this(2) have
    "ForMarshalling toy_signing ?b = Inr as \<and> sorted (map (projr \<circ> marshalAttribute) as)" by simp
  with as(1) show ?thesis by blast
qed

end
