(* ===== verification/Algorithms.thy ===== *)
theory Algorithms
  imports Oids
begin

text \<open>
  The algorithm tables: hashes of object identifiers, the identifiers a signer writes
  (\<open>pkcs7.go\<close>) and the signature algorithm a verifier reads off them (\<open>verify.go\<close>).
\<close>

section \<open>Tables of \<open>pkcs7.go\<close>\<close>

definition getHashForOID :: "oid \<Rightarrow> Hash result" where
  "getHashForOID oid =
     (if oid = OIDDigestAlgorithmSHA1 \<or> oid = OIDDigestAlgorithmECDSASHA1 \<or> oid = OIDDigestAlgorithmDSA \<or>
         oid = OIDDigestAlgorithmDSASHA1 \<or> oid = OIDEncryptionAlgorithmRSA then Inr SHA1
      else if oid = OIDDigestAlgorithmSHA256 \<or> oid = OIDDigestAlgorithmECDSASHA256 then Inr SHA256
      else if oid = OIDDigestAlgorithmSHA384 \<or> oid = OIDDigestAlgorithmECDSASHA384 then Inr SHA384
      else if oid = OIDDigestAlgorithmSHA512 \<or> oid = OIDDigestAlgorithmECDSASHA512 then Inr SHA512
      else Inl ErrUnsupportedAlgorithm)"

fun GetDigestOIDForSignatureAlgorithm :: "SignatureAlgorithm \<Rightarrow> oid result" where
  "GetDigestOIDForSignatureAlgorithm digestAlg =
     (if digestAlg \<in> {SHA1WithRSA, ECDSAWithSHA1} then Inr OIDDigestAlgorithmSHA1
      else if digestAlg \<in> {SHA256WithRSA, ECDSAWithSHA256} then Inr OIDDigestAlgorithmSHA256
      else if digestAlg \<in> {SHA384WithRSA, ECDSAWithSHA384} then Inr OIDDigestAlgorithmSHA384
      else if digestAlg \<in> {SHA512WithRSA, ECDSAWithSHA512, PureEd25519, MLDSA44, MLDSA65, MLDSA87}
      then Inr OIDDigestAlgorithmSHA512
      else Inl (AlgError UnknownHashAlgorithm))"

record mlDSAAlgorithm =
  mlParameters :: mldsaParameters
  mlOID :: oid
  mlSignatureAlgorithm :: SignatureAlgorithm

definition mlDSAAlgorithms :: "mlDSAAlgorithm list" where
  "mlDSAAlgorithms =
     [\<lparr>mlParameters = mldsa_MLDSA44, mlOID = OIDSignatureAlgorithmMLDSA44, mlSignatureAlgorithm = MLDSA44\<rparr>,
      \<lparr>mlParameters = mldsa_MLDSA65, mlOID = OIDSignatureAlgorithmMLDSA65, mlSignatureAlgorithm = MLDSA65\<rparr>,
      \<lparr>mlParameters = mldsa_MLDSA87, mlOID = OIDSignatureAlgorithmMLDSA87, mlSignatureAlgorithm = MLDSA87\<rparr>]"

definition mlDSAAlgorithmForPublicKey :: "PublicKey \<Rightarrow> mlDSAAlgorithm option" where
  "mlDSAAlgorithmForPublicKey publicKey = (case publicKey of
     MLDSAPublicKey params _ \<Rightarrow> find (\<lambda>algorithm. params = mlParameters algorithm) mlDSAAlgorithms
   | _ \<Rightarrow> None)"

definition mlDSAAlgorithmForOID :: "oid \<Rightarrow> mlDSAAlgorithm option" where
  "mlDSAAlgorithmForOID oid = find (\<lambda>algorithm. oid = mlOID algorithm) mlDSAAlgorithms"

definition oidForPublicKey :: "PublicKey \<Rightarrow> oid \<Rightarrow> oid result" where
  "oidForPublicKey public OIDDigestAlg = (case public of
     RSAPublicKey _ \<Rightarrow>
       (if OIDDigestAlg = OIDEncryptionAlgorithmRSA then Inr OIDEncryptionAlgorithmRSA
        else if OIDDigestAlg = OIDDigestAlgorithmSHA1 then Inr OIDEncryptionAlgorithmRSASHA1
        else if OIDDigestAlg = OIDDigestAlgorithmSHA256 then Inr OIDEncryptionAlgorithmRSASHA256
        else if OIDDigestAlg = OIDDigestAlgorithmSHA384 then Inr OIDEncryptionAlgorithmRSASHA384
        else if OIDDigestAlg = OIDDigestAlgorithmSHA512 then Inr OIDEncryptionAlgorithmRSASHA512
        else Inr OIDEncryptionAlgorithmRSA)
   | ECDSAPublicKey _ \<Rightarrow>
       (if OIDDigestAlg = OIDDigestAlgorithmSHA1 then Inr OIDDigestAlgorithmECDSASHA1
        else if OIDDigestAlg = OIDDigestAlgorithmSHA256 then Inr OIDDigestAlgorithmECDSASHA256
        else if OIDDigestAlg = OIDDigestAlgorithmSHA384 then Inr OIDDigestAlgorithmECDSASHA384
        else if OIDDigestAlg = OIDDigestAlgorithmSHA512 then Inr OIDDigestAlgorithmECDSASHA512
        else Inl (AlgError UnknownKeyType))
   | Ed25519PublicKey _ \<Rightarrow> Inr OIDEncryptionAlgorithmEDDSA25519
   | MLDSAPublicKey _ _ \<Rightarrow> (case mlDSAAlgorithmForPublicKey public of
       None \<Rightarrow> Inl (AlgError UnsupportedMLDSAParameters)
     | Some algorithm \<Rightarrow> Inr (mlOID algorithm))
   | _ \<Rightarrow> Inl (AlgError UnknownKeyType))"

definition getOIDForEncryptionAlgorithm :: "PrivateKey \<Rightarrow> oid \<Rightarrow> oid result" where
  "getOIDForEncryptionAlgorithm keyOrSigner OIDDigestAlg = (case keyOrSigner of
     DSAPrivateKey _ \<Rightarrow> Inr OIDDigestAlgorithmDSA
   | _ \<Rightarrow> (case signerPublic keyOrSigner of
       None \<Rightarrow> Inl (AlgError KeyNotSigner)
     | Some public \<Rightarrow> oidForPublicKey public OIDDigestAlg))"

section \<open>Signature algorithms of \<open>verify.go\<close>\<close>

definition algorithmIdentifierParametersPresent :: "RawValue \<Rightarrow> bool" where
  "algorithmIdentifierParametersPresent parameters \<longleftrightarrow>
     rvClass parameters \<noteq> 0 \<or> rvTag parameters \<noteq> 0 \<or> rvIsCompound parameters \<or>
     length (rvBytes parameters) \<noteq> 0 \<or> length (rvFullBytes parameters) \<noteq> 0"

definition algorithmIdentifierParametersAbsentOrNull :: "RawValue \<Rightarrow> bool" where
  "algorithmIdentifierParametersAbsentOrNull parameters =
     (if \<not> algorithmIdentifierParametersPresent parameters then True
      else if length (rvFullBytes parameters) \<noteq> 0
      then length (rvFullBytes parameters) = 2 \<and> rvFullBytes parameters ! 0 = 0x05 \<and> rvFullBytes parameters ! 1 = 0x00
      else rvClass parameters = 0 \<and> rvTag parameters = 5 \<and> \<not> rvIsCompound parameters \<and>
        length (rvBytes parameters) = 0)"

definition getECDSASignatureAlgorithm :: "AlgorithmIdentifier \<Rightarrow> oid \<Rightarrow> SignatureAlgorithm result" where
  "getECDSASignatureAlgorithm digest signatureOID =
     (if algOID digest = OIDDigestAlgorithmSHA1 then Inr ECDSAWithSHA1
      else if algOID digest = OIDDigestAlgorithmSHA256 then Inr ECDSAWithSHA256
      else if algOID digest = OIDDigestAlgorithmSHA384 then Inr ECDSAWithSHA384
      else if algOID digest = OIDDigestAlgorithmSHA512 then Inr ECDSAWithSHA512
      else Inl (AlgError UnsupportedDigest))"

record pssParameters =
  pssHash :: AlgorithmIdentifier
  pssMGF :: AlgorithmIdentifier
  pssSaltLength :: int
  pssTrailerField :: int

definition pssFields :: "pssParameters decoder" where
  "pssFields bs =
     and_then (parseExplicit 0 (universal 16 True) (structContent algFields) (Some algZero) bs) (\<lambda>(hash, bs).
     and_then (parseExplicit 1 (universal 16 True) (structContent algFields) (Some algZero) bs) (\<lambda>(mgf, bs).
     and_then (parseExplicit 2 (universal 2 False) (\<lambda>_ inner _. parseInt64 inner) (Some 20) bs) (\<lambda>(salt, bs).
     and_then (parseExplicit 3 (universal 2 False) (\<lambda>_ inner _. parseInt64 inner) (Some 1) bs) (\<lambda>(trailer, bs).
       Inr (\<lparr>pssHash = hash, pssMGF = mgf, pssSaltLength = salt, pssTrailerField = trailer\<rparr>, bs)))))"

definition parsePSS :: "pssParameters decoder" where
  "parsePSS = parseStruct pssFields None"

definition pssHashAlgorithm :: "oid \<Rightarrow> (SignatureAlgorithm \<times> int) result" where
  "pssHashAlgorithm oid =
     (if oid = OIDDigestAlgorithmSHA256 then Inr (SHA256WithRSAPSS, 32)
      else if oid = OIDDigestAlgorithmSHA384 then Inr (SHA384WithRSAPSS, 48)
      else if oid = OIDDigestAlgorithmSHA512 then Inr (SHA512WithRSAPSS, 64)
      else Inl (AlgError PSSUnsupportedHash))"

definition getRSAPSSSignatureAlgorithm :: "RawValue \<Rightarrow> AlgorithmIdentifier \<Rightarrow> SignatureAlgorithm result" where
  "getRSAPSSSignatureAlgorithm parameters digest = (case parsePSS (rvFullBytes parameters) of
     Inl e \<Rightarrow> Inl (Wrapped PSSInvalidParameters e)
   | Inr (params, rest) \<Rightarrow>
       if rest \<noteq> [] then Inl (AlgError PSSTrailingData)
       else and_then (pssHashAlgorithm (algOID (pssHash params))) (\<lambda>(signatureAlgorithm, hashSize).
         if algOID (pssMGF params) \<noteq> OIDMaskGenerationFunctionMGF1 then Inl (AlgError PSSUnsupportedMGF)
         else (case parseAlg (rvFullBytes (algParameters (pssMGF params))) of
             Inl _ \<Rightarrow> Inl (AlgError PSSInvalidMGFParameters)
           | Inr (mgfHash, rest) \<Rightarrow>
             if rest \<noteq> [] then Inl (AlgError PSSInvalidMGFParameters)
             else if algOID mgfHash \<noteq> algOID (pssHash params) then Inl (AlgError PSSMGFHashDiffers)
             else if pssSaltLength params \<noteq> hashSize then Inl (AlgError (PSSSaltLength (pssSaltLength params)))
             else if pssTrailerField params \<noteq> 1 then Inl (AlgError (PSSTrailerField (pssTrailerField params)))
             else if algOID digest \<noteq> algOID (pssHash params) then Inl (AlgError PSSDigestDiffers)
             else Inr signatureAlgorithm)))"

definition getRSASignatureAlgorithm :: "oid \<Rightarrow> SignatureAlgorithm result" where
  "getRSASignatureAlgorithm digest =
     (if digest = OIDDigestAlgorithmSHA1 then Inr SHA1WithRSA
      else if digest = OIDDigestAlgorithmSHA256 then Inr SHA256WithRSA
      else if digest = OIDDigestAlgorithmSHA384 then Inr SHA384WithRSA
      else if digest = OIDDigestAlgorithmSHA512 then Inr SHA512WithRSA
      else Inl (AlgError UnsupportedDigest))"

definition getSignatureAlgorithm :: "AlgorithmIdentifier \<Rightarrow> AlgorithmIdentifier \<Rightarrow> SignatureAlgorithm result" where
  "getSignatureAlgorithm digestEncryption digest =
     (let alg = algOID digestEncryption in
      case mlDSAAlgorithmForOID alg of
        Some algorithm \<Rightarrow>
          (if algorithmIdentifierParametersPresent (algParameters digestEncryption) then Inl (AlgError MLDSAParametersPresent)
           else Inr (mlSignatureAlgorithm algorithm))
      | None \<Rightarrow>
          (if alg = OIDDigestAlgorithmECDSASHA1 then Inr ECDSAWithSHA1
           else if alg = OIDDigestAlgorithmECDSASHA256 then Inr ECDSAWithSHA256
           else if alg = OIDDigestAlgorithmECDSASHA384 then Inr ECDSAWithSHA384
           else if alg = OIDDigestAlgorithmECDSASHA512 then Inr ECDSAWithSHA512
           else if alg = OIDPublicKeyAlgorithmEC
           then (if \<not> algorithmIdentifierParametersAbsentOrNull (algParameters digestEncryption)
                 then Inl (AlgError ECPublicKeyParameters) else getECDSASignatureAlgorithm digest alg)
           else if alg \<in> {OIDEncryptionAlgorithmRSA, OIDEncryptionAlgorithmRSASHA1, OIDEncryptionAlgorithmRSASHA256,
                   OIDEncryptionAlgorithmRSASHA384, OIDEncryptionAlgorithmRSASHA512}
           then getRSASignatureAlgorithm (algOID digest)
           else if alg = OIDDigestAlgorithmDSA \<or> alg = OIDDigestAlgorithmDSASHA1 then Inl (AlgError DSAVerificationUnsupported)
           else if alg \<in> {OIDEncryptionAlgorithmECDSAP256, OIDEncryptionAlgorithmECDSAP384, OIDEncryptionAlgorithmECDSAP521}
           then getECDSASignatureAlgorithm digest alg
           else if alg = OIDEncryptionAlgorithmEDDSA25519 then Inr PureEd25519
           else if alg = OIDEncryptionAlgorithmRSAPSS
           then getRSAPSSSignatureAlgorithm (algParameters digestEncryption) digest
           else Inl (AlgError UnsupportedSignatureAlgorithm)))"

section \<open>What the tables promise\<close>

text \<open>
  The reference table: the signature algorithm of a key type and a hash. Ed25519 and ML-DSA
  hash by themselves.
\<close>

fun signatureAlgorithmFor :: "PublicKey \<Rightarrow> Hash \<Rightarrow> SignatureAlgorithm option" where
  "signatureAlgorithmFor (RSAPublicKey _) h = Some (case h of SHA1 \<Rightarrow> SHA1WithRSA
     | SHA256 \<Rightarrow> SHA256WithRSA | SHA384 \<Rightarrow> SHA384WithRSA | SHA512 \<Rightarrow> SHA512WithRSA)"
| "signatureAlgorithmFor (ECDSAPublicKey _) h = Some (case h of SHA1 \<Rightarrow> ECDSAWithSHA1
     | SHA256 \<Rightarrow> ECDSAWithSHA256 | SHA384 \<Rightarrow> ECDSAWithSHA384 | SHA512 \<Rightarrow> ECDSAWithSHA512)"
| "signatureAlgorithmFor (Ed25519PublicKey _) h = Some PureEd25519"
| "signatureAlgorithmFor (MLDSAPublicKey mldsa_MLDSA44 _) h = Some MLDSA44"
| "signatureAlgorithmFor (MLDSAPublicKey mldsa_MLDSA65 _) h = Some MLDSA65"
| "signatureAlgorithmFor (MLDSAPublicKey mldsa_MLDSA87 _) h = Some MLDSA87"
| "signatureAlgorithmFor _ h = None"

fun digestOID :: "Hash \<Rightarrow> oid" where
  "digestOID SHA1 = OIDDigestAlgorithmSHA1"
| "digestOID SHA256 = OIDDigestAlgorithmSHA256"
| "digestOID SHA384 = OIDDigestAlgorithmSHA384"
| "digestOID SHA512 = OIDDigestAlgorithmSHA512"

text \<open>The hash inside a signature algorithm, for the families that have one.\<close>

fun algorithmHash :: "SignatureAlgorithm \<Rightarrow> Hash option" where
  "algorithmHash alg =
     (if alg \<in> {SHA1WithRSA, ECDSAWithSHA1, DSAWithSHA1} then Some SHA1
      else if alg \<in> {SHA256WithRSA, ECDSAWithSHA256, DSAWithSHA256, SHA256WithRSAPSS} then Some SHA256
      else if alg \<in> {SHA384WithRSA, ECDSAWithSHA384, SHA384WithRSAPSS} then Some SHA384
      else if alg \<in> {SHA512WithRSA, ECDSAWithSHA512, SHA512WithRSAPSS} then Some SHA512
      else None)"

lemmas ml_defs = mlDSAAlgorithms_def mlDSAAlgorithmForPublicKey_def mlDSAAlgorithmForOID_def

lemma getHashForOID_digestOID [simp]: "getHashForOID (digestOID h) = Inr h"
  by (cases h) (simp_all add: getHashForOID_def)

lemma mlDSAAlgorithmForOID_none:
  "oid \<notin> {OIDSignatureAlgorithmMLDSA44, OIDSignatureAlgorithmMLDSA65, OIDSignatureAlgorithmMLDSA87} \<Longrightarrow>
     mlDSAAlgorithmForOID oid = None"
  by (simp add: ml_defs)

lemma algOnly_no_parameters [simp]: "\<not> algorithmIdentifierParametersPresent (algParameters (algOnly oid))"
  "algOID (algOnly oid) = oid"
  by (simp_all add: algorithmIdentifierParametersPresent_def algOnly_def rawZero_def)

lemma oidForPublicKey_verifies:
  assumes "oidForPublicKey public (digestOID h) = Inr sigOID"
  shows "\<exists>alg. getSignatureAlgorithm (algOnly sigOID) (algOnly (digestOID h)) = Inr alg \<and>
    signatureAlgorithmFor public h = Some alg"
proof (cases public)
  case (MLDSAPublicKey params k)
  with assms show ?thesis
    by (cases params) (auto simp: oidForPublicKey_def ml_defs getSignatureAlgorithm_def )
qed (use assms in \<open>cases h; simp add: oidForPublicKey_def getSignatureAlgorithm_def ml_defs
      getRSASignatureAlgorithm_def \<close>)+

lemma getRSA_hash: "getRSASignatureAlgorithm d = Inr alg \<Longrightarrow> \<exists>h. getHashForOID d = Inr h \<and> algorithmHash alg = Some h"
  by (auto simp: getRSASignatureAlgorithm_def getHashForOID_def  split: if_splits)

lemma getECDSA_hash:
  "getECDSASignatureAlgorithm d oid = Inr alg \<Longrightarrow> \<exists>h. getHashForOID (algOID d) = Inr h \<and> algorithmHash alg = Some h"
  by (auto simp: getECDSASignatureAlgorithm_def getHashForOID_def  split: if_splits)

lemma getPSS_hash:
  assumes "getRSAPSSSignatureAlgorithm params d = Inr alg"
  shows "\<exists>h. getHashForOID (algOID d) = Inr h \<and> algorithmHash alg = Some h"
proof -
  from assms have "\<exists>n. pssHashAlgorithm (algOID d) = Inr (alg, n)"
    by (auto simp: getRSAPSSSignatureAlgorithm_def split: sum.splits if_splits)
  then show ?thesis by (auto simp: pssHashAlgorithm_def getHashForOID_def split: if_splits)
qed

text \<open>The places \<open>getSignatureAlgorithm\<close> takes its answer from.\<close>

lemma getSignatureAlgorithm_cases:
  assumes "getSignatureAlgorithm a digest = Inr alg"
  obtains algorithm where "mlDSAAlgorithmForOID (algOID a) = Some algorithm" "alg = mlSignatureAlgorithm algorithm"
  | "getRSASignatureAlgorithm (algOID digest) = Inr alg"
  | "getECDSASignatureAlgorithm digest (algOID a) = Inr alg"
  | "getRSAPSSSignatureAlgorithm (algParameters a) digest = Inr alg"
  | "alg = PureEd25519"
  | h where "algOID a \<in> {OIDDigestAlgorithmECDSASHA1, OIDDigestAlgorithmECDSASHA256, OIDDigestAlgorithmECDSASHA384,
      OIDDigestAlgorithmECDSASHA512}" "getHashForOID (algOID a) = Inr h" "algorithmHash alg = Some h"
proof (cases "mlDSAAlgorithmForOID (algOID a)")
  case (Some algorithm)
  with assms that(1) show thesis by (auto simp: getSignatureAlgorithm_def split: if_splits)
next
  case None
  have "getRSASignatureAlgorithm (algOID digest) = Inr alg \<or>
      getECDSASignatureAlgorithm digest (algOID a) = Inr alg \<or>
      getRSAPSSSignatureAlgorithm (algParameters a) digest = Inr alg \<or> alg = PureEd25519 \<or>
      algOID a = OIDDigestAlgorithmECDSASHA1 \<and> alg = ECDSAWithSHA1 \<or>
      algOID a = OIDDigestAlgorithmECDSASHA256 \<and> alg = ECDSAWithSHA256 \<or>
      algOID a = OIDDigestAlgorithmECDSASHA384 \<and> alg = ECDSAWithSHA384 \<or>
      algOID a = OIDDigestAlgorithmECDSASHA512 \<and> alg = ECDSAWithSHA512"
    using assms unfolding getSignatureAlgorithm_def Let_def None option.case
    by (simp only: sum.inject sum.distinct split: if_split_asm; simp)
  then show thesis
    by (elim disjE conjE) (erule that(2-5) | rule that(6), simp, simp add: getHashForOID_def, simp)+
qed

section \<open>Properties\<close>

text \<open>
  C15: What a signer writes, a verifier reads: for every key and every digest identifier
  \<open>SetDigestAlgorithm\<close> is meant for, if the signing side finds an identifier for the signature
  then the verifying side maps it, with that digest, to the signature algorithm of the key type and hash.
\<close>

theorem signer_verifier_agree:
  assumes "signerPublic key = Some public"
    and "getOIDForEncryptionAlgorithm key (digestOID h) = Inr sigOID"
  shows "\<exists>alg. getSignatureAlgorithm (algOnly sigOID) (algOnly (digestOID h)) = Inr alg \<and>
    signatureAlgorithmFor public h = Some alg"
proof -
  from assms have "oidForPublicKey public (digestOID h) = Inr sigOID"
    by (cases key) (auto simp: getOIDForEncryptionAlgorithm_def)
  then show ?thesis by (rule oidForPublicKey_verifies)
qed

theorem signer_verifier_agree_witness:
  "\<exists>alg. getSignatureAlgorithm (algOnly OIDEncryptionAlgorithmRSASHA384) (algOnly (digestOID SHA384)) = Inr alg \<and>
    signatureAlgorithmFor (RSAPublicKey [7]) SHA384 = Some alg"
proof (rule signer_verifier_agree)
  show "signerPublic (RSAPrivateKey [3] [7]) = Some (RSAPublicKey [7])" by simp
  show "getOIDForEncryptionAlgorithm (RSAPrivateKey [3] [7]) (digestOID SHA384) = Inr OIDEncryptionAlgorithmRSASHA384"
    by (simp add: getOIDForEncryptionAlgorithm_def oidForPublicKey_def )
qed

text \<open>
  C19: The identifier a DSA signer writes is refused by the verifier, whatever its parameters and
  the digest: DSA signatures can be made and never verified.
\<close>

theorem dsa_signed_never_verified:
  assumes "getOIDForEncryptionAlgorithm (DSAPrivateKey k) d = Inr sigOID" and "algOID a = sigOID"
  shows "getSignatureAlgorithm a digest = Inl (AlgError DSAVerificationUnsupported)"
  using assms by (simp add: getOIDForEncryptionAlgorithm_def getSignatureAlgorithm_def ml_defs )

theorem dsa_signed_never_verified_witness:
  "getSignatureAlgorithm (algOnly OIDDigestAlgorithmDSA) (algOnly OIDDigestAlgorithmSHA1) =
     Inl (AlgError DSAVerificationUnsupported)"
proof (rule dsa_signed_never_verified)
  show "getOIDForEncryptionAlgorithm (DSAPrivateKey [1]) OIDDigestAlgorithmSHA1 = Inr OIDDigestAlgorithmDSA"
    by (simp add: getOIDForEncryptionAlgorithm_def)
  show "algOID (algOnly OIDDigestAlgorithmDSA) = OIDDigestAlgorithmDSA" by simp
qed

text \<open>
  C16: An RSASSA-PSS signature is accepted for exactly one profile per hash: well-formed parameters
  and nothing after them, SHA-256, SHA-384 or SHA-512, MGF1 over the same hash, a salt as long as
  the hash, trailer field 1, and a digest algorithm equal to the hash.
\<close>

theorem pss_profile_exact:
  "getRSAPSSSignatureAlgorithm parameters digest = Inr alg \<longleftrightarrow>
     (\<exists>params mgfHash size.
        parsePSS (rvFullBytes parameters) = Inr (params, []) \<and>
        parseAlg (rvFullBytes (algParameters (pssMGF params))) = Inr (mgfHash, []) \<and>
        (algOID digest, alg, size) \<in> {(OIDDigestAlgorithmSHA256, SHA256WithRSAPSS, 32),
           (OIDDigestAlgorithmSHA384, SHA384WithRSAPSS, 48), (OIDDigestAlgorithmSHA512, SHA512WithRSAPSS, 64)} \<and>
        algOID (pssHash params) = algOID digest \<and> algOID mgfHash = algOID digest \<and>
        algOID (pssMGF params) = OIDMaskGenerationFunctionMGF1 \<and>
        pssSaltLength params = size \<and> pssTrailerField params = 1)"
  by (auto simp: getRSAPSSSignatureAlgorithm_def pssHashAlgorithm_def split: sum.splits if_splits)

text \<open>
  C17: The hash of the algorithm a signature is checked with is the hash of the digest algorithm the
  signer names, except where the signature identifier names the hash itself (ecdsa-with-SHA*) or
  the scheme hashes by itself; it is never taken from an RSA signature identifier.
\<close>

theorem getSignatureAlgorithm_hash:
  assumes "getSignatureAlgorithm a digest = Inr alg"
  shows "(\<exists>h. getHashForOID (algOID digest) = Inr h \<and> algorithmHash alg = Some h) \<or>
    algOID a \<in> {OIDDigestAlgorithmECDSASHA1, OIDDigestAlgorithmECDSASHA256, OIDDigestAlgorithmECDSASHA384,
      OIDDigestAlgorithmECDSASHA512} \<and> (\<exists>h. getHashForOID (algOID a) = Inr h \<and> algorithmHash alg = Some h) \<or>
    alg \<in> {PureEd25519, MLDSA44, MLDSA65, MLDSA87}"
  using assms
proof (cases rule: getSignatureAlgorithm_cases)
  case (1 algorithm)
  then have "alg \<in> {MLDSA44, MLDSA65, MLDSA87}" by (auto simp: ml_defs split: if_splits)
  then show ?thesis by blast
qed (blast dest: getRSA_hash getECDSA_hash getPSS_hash)+

theorem getSignatureAlgorithm_hash_witness:
  "getSignatureAlgorithm (algOnly OIDEncryptionAlgorithmRSASHA256) (algOnly OIDDigestAlgorithmSHA1) = Inr SHA1WithRSA \<and>
   getHashForOID (algOID (algOnly OIDDigestAlgorithmSHA1)) = Inr SHA1 \<and> algorithmHash SHA1WithRSA = Some SHA1"
proof -
  have alg: "getSignatureAlgorithm (algOnly OIDEncryptionAlgorithmRSASHA256) (algOnly OIDDigestAlgorithmSHA1) = Inr SHA1WithRSA"
    by (simp add: getSignatureAlgorithm_def ml_defs getRSASignatureAlgorithm_def )
  with getSignatureAlgorithm_hash [OF alg] show ?thesis by auto
qed

text \<open>
  C18: The digest identifier recommended for an RSA or ECDSA signature algorithm leads back to that
  algorithm: a SignerInfo that names the key's plain identifier and this digest is checked with it.
\<close>

theorem recommended_digest_roundtrip:
  assumes "GetDigestOIDForSignatureAlgorithm alg = Inr d"
    and "alg \<notin> {PureEd25519, MLDSA44, MLDSA65, MLDSA87}"
  shows "getSignatureAlgorithm (algOnly OIDEncryptionAlgorithmRSA) (algOnly d) = Inr alg \<or>
    getSignatureAlgorithm (algOnly OIDPublicKeyAlgorithmEC) (algOnly d) = Inr alg"
  using assms
  by (cases alg) (simp_all add: getSignatureAlgorithm_def ml_defs getRSASignatureAlgorithm_def
      getECDSASignatureAlgorithm_def algorithmIdentifierParametersAbsentOrNull_def )

theorem recommended_digest_roundtrip_witness:
  "getSignatureAlgorithm (algOnly OIDEncryptionAlgorithmRSA) (algOnly OIDDigestAlgorithmSHA512) = Inr ECDSAWithSHA512 \<or>
   getSignatureAlgorithm (algOnly OIDPublicKeyAlgorithmEC) (algOnly OIDDigestAlgorithmSHA512) = Inr ECDSAWithSHA512"
  by (rule recommended_digest_roundtrip) simp_all

end
