(* ===== verification/Verify.thy ===== *)
theory Verify
  imports Attributes Algorithms
begin

text \<open>
  Verification (\<open>verify.go\<close>): the checks on one signer, with the current time or at a given time, and
  the loop over the signers. The clock is an argument: \<open>clock i\<close> is what \<open>time.Now\<close> returns for the
  signer number \<open>i\<close>.
\<close>

section \<open>One signer\<close>

text \<open>The digest of the content is compared with the message digest attribute.\<close>

definition checkMessageDigest :: "signing \<Rightarrow> PKCS7 \<Rightarrow> signerInfo \<Rightarrow> unit result" where
  "checkMessageDigest S p7 signer = (case unmarshalAttribute (siAuthenticatedAttributes signer) OIDAttributeMessageDigest
       (unmarshalInto parseOctets) [] of
     (_, Inl e) \<Rightarrow> Inl e
   | (digest, Inr _) \<Rightarrow>
       and_then (getHashForOID (algOID (siDigestAlgorithm signer))) (\<lambda>hash.
       let computed = hash_Sum S hash (Content p7) in
       if ConstantTimeCompare digest computed \<noteq> 1 then Inl (SignError (MessageDigestMismatchError digest computed))
       else Inr ()))"

text \<open>\<open>signingTime.After(ee.NotAfter) || signingTime.Before(ee.NotBefore)\<close>\<close>

definition outsideValidity :: "Certificate \<Rightarrow> int \<Rightarrow> bool" where
  "outsideValidity ee t \<longleftrightarrow> t > NotAfter ee \<or> t < NotBefore ee"

text \<open>
  What is signed, and the signing time: \<open>signingTime\<close> starts as \<open>initial\<close> and is whatever decoding the
  attribute left in it; its error is dropped, and only a time that was read is checked.
\<close>

definition checkSignedAttributes :: "signing \<Rightarrow> PKCS7 \<Rightarrow> signerInfo \<Rightarrow> Certificate \<Rightarrow> int \<Rightarrow> (bytes \<times> int) result" where
  "checkSignedAttributes S p7 signer ee initial =
     (if length (siAuthenticatedAttributes signer) > 0
      then and_then (checkMessageDigest S p7 signer) (\<lambda>_.
        and_then (marshalAttributes (siAuthenticatedAttributes signer)) (\<lambda>signedData.
        case unmarshalAttribute (siAuthenticatedAttributes signer) OIDAttributeSigningTime (time_Unmarshal S) initial of
          (signingTime, Inr _) \<Rightarrow>
            if outsideValidity ee signingTime then Inl (SignError (SigningTimeOutsideValidity signingTime))
            else Inr (signedData, signingTime)
        | (signingTime, Inl _) \<Rightarrow> Inr (signedData, signingTime)))
      else Inr (Content p7, initial))"

text \<open>The chain is verified only against given roots.\<close>

definition checkChain :: "x509 \<Rightarrow> Certificate \<Rightarrow> VerifyOptions \<Rightarrow> unit result" where
  "checkChain X ee opts = (case Roots opts of None \<Rightarrow> Inr ()
     | Some _ \<Rightarrow> (case cert_Verify X ee opts of Inl e \<Rightarrow> Inl (Wrapped ChainVerificationFailed e) | Inr _ \<Rightarrow> Inr ()))"

definition checkSignerSignature :: "x509 \<Rightarrow> Certificate \<Rightarrow> signerInfo \<Rightarrow> bytes \<Rightarrow> unit result" where
  "checkSignerSignature X ee signer signedData =
     and_then (getSignatureAlgorithm (siDigestEncryptionAlgorithm signer) (siDigestAlgorithm signer)) (\<lambda>sigalg.
       CheckSignature X ee sigalg signedData (siEncryptedDigest signer))"

definition verifySignatureAtTime :: "x509 \<Rightarrow> signing \<Rightarrow> PKCS7 \<Rightarrow> signerInfo \<Rightarrow> VerifyOptions \<Rightarrow> unit result" where
  "verifySignatureAtTime X S p7 signer opts =
     (case getCertFromCertsByIssuerAndSerial (Certificates p7) (siIssuerAndSerialNumber signer) of
       None \<Rightarrow> Inl (SignError NoCertificateForSigner)
     | Some ee \<Rightarrow>
         and_then (checkSignedAttributes S p7 signer ee 0) (\<lambda>(signedData, _).
         and_then (checkChain X ee opts) (\<lambda>_. checkSignerSignature X ee signer signedData)))"

definition verifySignature :: "x509 \<Rightarrow> signing \<Rightarrow> int \<Rightarrow> PKCS7 \<Rightarrow> signerInfo \<Rightarrow> VerifyOptions \<Rightarrow> unit result" where
  "verifySignature X S now p7 signer opts =
     (case getCertFromCertsByIssuerAndSerial (Certificates p7) (siIssuerAndSerialNumber signer) of
       None \<Rightarrow> Inl (SignError NoCertificateForSigner)
     | Some ee \<Rightarrow>
         and_then (checkSignedAttributes S p7 signer ee now) (\<lambda>(signedData, signingTime).
         and_then (checkChain X ee (opts\<lparr>CurrentTime := signingTime\<rparr>)) (\<lambda>_.
           checkSignerSignature X ee signer signedData)))"

section \<open>All signers\<close>

fun verifySignatures :: "(nat \<Rightarrow> signerInfo \<Rightarrow> unit result) \<Rightarrow> nat \<Rightarrow> signerInfo list \<Rightarrow> unit result" where
  "verifySignatures check i [] = Inr ()"
| "verifySignatures check i (signer # signers) =
     and_then (check i signer) (\<lambda>_. verifySignatures check (Suc i) signers)"

text \<open>\<open>x509.ExtKeyUsageAny\<close>, the default of the key usages.\<close>

definition ExtKeyUsageAny :: nat where
  "ExtKeyUsageAny = 0"

definition VerifyWithOpts :: "x509 \<Rightarrow> signing \<Rightarrow> (nat \<Rightarrow> int) \<Rightarrow> PKCS7 \<Rightarrow> VerifyOptions \<Rightarrow> unit result" where
  "VerifyWithOpts X S clock p7 opts =
     (let opts = (if KeyUsages opts = None then opts\<lparr>KeyUsages := Some [ExtKeyUsageAny]\<rparr> else opts) in
      if length (Signers p7) = 0 then Inl (SignError NoSigners)
      else if CurrentTime opts = 0
      then verifySignatures (\<lambda>i signer. verifySignature X S (clock i) p7 signer opts) 0 (Signers p7)
      else verifySignatures (\<lambda>i signer. verifySignatureAtTime X S p7 signer opts) 0 (Signers p7))"

text \<open>\<open>CertPool.AddCert\<close> ignores a certificate the pool already has.\<close>

definition AddCert :: "Certificate \<Rightarrow> Certificate list \<Rightarrow> Certificate list" where
  "AddCert cert pool = (if cert \<in> set pool then pool else pool @ [cert])"

definition VerifyWithChain :: "x509 \<Rightarrow> signing \<Rightarrow> (nat \<Rightarrow> int) \<Rightarrow> PKCS7 \<Rightarrow> Certificate list option \<Rightarrow> unit result" where
  "VerifyWithChain X S clock p7 truststore = VerifyWithOpts X S clock p7
     \<lparr>Roots = truststore, Intermediates = fold AddCert (Certificates p7) [], CurrentTime = 0, KeyUsages = None\<rparr>"

definition VerifyWithChainAtTime ::
  "x509 \<Rightarrow> signing \<Rightarrow> (nat \<Rightarrow> int) \<Rightarrow> PKCS7 \<Rightarrow> Certificate list option \<Rightarrow> int \<Rightarrow> unit result" where
  "VerifyWithChainAtTime X S clock p7 truststore currentTime = VerifyWithOpts X S clock p7
     \<lparr>Roots = truststore, Intermediates = fold AddCert (Certificates p7) [], CurrentTime = currentTime, KeyUsages = None\<rparr>"

definition p7_Verify :: "x509 \<Rightarrow> signing \<Rightarrow> (nat \<Rightarrow> int) \<Rightarrow> PKCS7 \<Rightarrow> unit result" where
  "p7_Verify X S clock p7 = VerifyWithChain X S clock p7 None"

definition GetOnlySigner :: "PKCS7 \<Rightarrow> Certificate option" where
  "GetOnlySigner p7 = (case Signers p7 of
     [signer] \<Rightarrow> getCertFromCertsByIssuerAndSerial (Certificates p7) (siIssuerAndSerialNumber signer)
   | _ \<Rightarrow> None)"

definition UnmarshalSignedAttribute ::
  "PKCS7 \<Rightarrow> oid \<Rightarrow> (bytes \<Rightarrow> 'a \<Rightarrow> 'a \<times> unit result) \<Rightarrow> 'a \<Rightarrow> 'a \<times> unit result" where
  "UnmarshalSignedAttribute p7 attributeType unmarshal out = (case p7raw p7 of
     RawSignedData sd \<Rightarrow> (case sdSignerInfos sd of
       [] \<Rightarrow> (out, Inl (SignError PayloadNoSigners))
     | signer # _ \<Rightarrow> unmarshalAttribute (siAuthenticatedAttributes signer) attributeType unmarshal out)
   | _ \<Rightarrow> (out, Inl (SignError PayloadNotSignedData)))"

section \<open>What a verified document promises\<close>

lemma verifySignatures_iff:
  "verifySignatures check i signers = Inr () \<longleftrightarrow> (\<forall>j < length signers. check (i + j) (signers ! j) = Inr ())"
proof (induction signers arbitrary: i)
  case (Cons signer signers)
  have "(\<forall>j < length (signer # signers). check (i + j) ((signer # signers) ! j) = Inr ()) \<longleftrightarrow>
      check i signer = Inr () \<and> (\<forall>j < length signers. check (Suc i + j) (signers ! j) = Inr ())"
    by (auto simp: less_Suc_eq_0_disj)
  with Cons show ?case by (auto simp: and_then_Inr_iff)
qed simp

text \<open>
  The specification: the certificate named by the signer is in the document, its key checks the
  signature, and the signature covers the content, either directly or through the attributes and
  the digest among them.
\<close>

definition authentic :: "x509 \<Rightarrow> signing \<Rightarrow> PKCS7 \<Rightarrow> signerInfo \<Rightarrow> Certificate \<Rightarrow> bool" where
  "authentic X S p7 signer ee \<longleftrightarrow>
     getCertFromCertsByIssuerAndSerial (Certificates p7) (siIssuerAndSerialNumber signer) = Some ee \<and>
     (\<exists>alg signedData.
        getSignatureAlgorithm (siDigestEncryptionAlgorithm signer) (siDigestAlgorithm signer) = Inr alg \<and>
        CheckSignature X ee alg signedData (siEncryptedDigest signer) = Inr () \<and>
        (if siAuthenticatedAttributes signer = [] then signedData = Content p7
         else marshalAttributes (siAuthenticatedAttributes signer) = Inr signedData \<and>
           (\<exists>hash. getHashForOID (algOID (siDigestAlgorithm signer)) = Inr hash \<and>
              unmarshalAttribute (siAuthenticatedAttributes signer) OIDAttributeMessageDigest (unmarshalInto parseOctets) [] =
                (hash_Sum S hash (Content p7), Inr ()))))"

text \<open>The time the certificate is judged at, and whether a signing time that was read lies in its validity.\<close>

definition signingTime :: "signing \<Rightarrow> signerInfo \<Rightarrow> int \<Rightarrow> int \<times> unit result" where
  "signingTime S signer initial =
     unmarshalAttribute (siAuthenticatedAttributes signer) OIDAttributeSigningTime (time_Unmarshal S) initial"

definition timely :: "signing \<Rightarrow> signerInfo \<Rightarrow> Certificate \<Rightarrow> int \<Rightarrow> bool" where
  "timely S signer ee initial \<longleftrightarrow> (case signingTime S signer initial of
     (t, Inr _) \<Rightarrow> NotBefore ee \<le> t \<and> t \<le> NotAfter ee | (_, Inl _) \<Rightarrow> True)"

definition trusted :: "x509 \<Rightarrow> Certificate \<Rightarrow> VerifyOptions \<Rightarrow> bool" where
  "trusted X ee opts \<longleftrightarrow> Roots opts = None \<or> cert_Verify X ee opts = Inr ()"

definition defaultKeyUsages :: "VerifyOptions \<Rightarrow> VerifyOptions" where
  "defaultKeyUsages opts = (if KeyUsages opts = None then opts\<lparr>KeyUsages := Some [ExtKeyUsageAny]\<rparr> else opts)"

lemma checkMessageDigest_iff:
  "checkMessageDigest S p7 signer = Inr () \<longleftrightarrow>
     (\<exists>hash. getHashForOID (algOID (siDigestAlgorithm signer)) = Inr hash \<and>
        unmarshalAttribute (siAuthenticatedAttributes signer) OIDAttributeMessageDigest (unmarshalInto parseOctets) [] =
          (hash_Sum S hash (Content p7), Inr ()))"
  by (auto simp: checkMessageDigest_def and_then_Inr_iff Let_def ConstantTimeCompare_def split: prod.splits sum.splits if_splits)

lemma checkSignedAttributes_iff:
  "checkSignedAttributes S p7 signer ee initial = Inr (signedData, t) \<longleftrightarrow>
     (if siAuthenticatedAttributes signer = [] then signedData = Content p7 \<and> t = initial
      else checkMessageDigest S p7 signer = Inr () \<and> marshalAttributes (siAuthenticatedAttributes signer) = Inr signedData \<and>
        timely S signer ee initial \<and> t = fst (signingTime S signer initial))"
  by (auto simp: checkSignedAttributes_def and_then_Inr_iff timely_def signingTime_def outsideValidity_def split: prod.splits sum.splits if_splits)

lemma checkChain_iff: "checkChain X ee opts = Inr () \<longleftrightarrow> trusted X ee opts"
  by (auto simp: checkChain_def trusted_def split: option.splits sum.splits)

lemma signingTime_none: "siAuthenticatedAttributes signer = [] \<Longrightarrow> signingTime S signer initial = (initial, Inl (SignError AttributeNotFound))"
  by (simp add: signingTime_def)

lemma verifySignatureAtTime_iff:
  "verifySignatureAtTime X S p7 signer opts = Inr () \<longleftrightarrow>
     (\<exists>ee. authentic X S p7 signer ee \<and> timely S signer ee 0 \<and> trusted X ee opts)"
  by (cases "siAuthenticatedAttributes signer = []")
    (auto simp: verifySignatureAtTime_def and_then_Inr_iff checkSignedAttributes_iff checkChain_iff checkSignerSignature_def
      authentic_def checkMessageDigest_iff timely_def signingTime_none split: option.splits)

lemma verifySignature_iff:
  "verifySignature X S now p7 signer opts = Inr () \<longleftrightarrow>
     (\<exists>ee. authentic X S p7 signer ee \<and> timely S signer ee now \<and>
        trusted X ee (opts\<lparr>CurrentTime := fst (signingTime S signer now)\<rparr>))"
  by (cases "siAuthenticatedAttributes signer = []")
    (auto simp: verifySignature_def and_then_Inr_iff checkSignedAttributes_iff checkChain_iff checkSignerSignature_def
      authentic_def checkMessageDigest_iff timely_def signingTime_none split: option.splits)

text \<open>A document for the witnesses: one signer, with the attributes and the signature given.\<close>

definition toy_signer :: "attribute list \<Rightarrow> bytes \<Rightarrow> signerInfo" where
  "toy_signer attrs signature = \<lparr>siVersion = 1,
     siIssuerAndSerialNumber = \<lparr>IssuerName = rawFull [48, 0], SerialNumber = 1\<rparr>,
     siDigestAlgorithm = algOnly OIDDigestAlgorithmSHA256, siAuthenticatedAttributes = attrs,
     siDigestEncryptionAlgorithm = algOnly OIDEncryptionAlgorithmRSA, siEncryptedDigest = signature,
     siUnauthenticatedAttributes = []\<rparr>"

definition toy_document :: "bytes \<Rightarrow> attribute list \<Rightarrow> bytes \<Rightarrow> PKCS7" where
  "toy_document content attrs signature = \<lparr>Content = content, Certificates = [toy_certificate (RSAPublicKey [1]) 1],
     CRLs = None, Signers = [toy_signer attrs signature], p7raw = RawNil\<rparr>"

definition toy_options :: VerifyOptions where
  "toy_options = \<lparr>Roots = None, Intermediates = [], CurrentTime = 0, KeyUsages = None\<rparr>"

lemmas toy_document_defs = toy_document_def toy_signer_def toy_options_def toy_x509_def toy_signing_def toy_certificate_def

lemma toy_document_cert:
  "getCertFromCertsByIssuerAndSerial (Certificates (toy_document content attrs signature))
     (siIssuerAndSerialNumber (toy_signer attrs signature)) = Some (toy_certificate (RSAPublicKey [1]) 1)"
  by (simp add: toy_document_defs rawFull_def isCertMatchForIssuerAndSerial_def)

lemma toy_authentic:
  "authentic toy_x509 toy_signing (toy_document [7] [] [1]) (toy_signer [] [1]) (toy_certificate (RSAPublicKey [1]) 1)"
proof -
  have "getSignatureAlgorithm (siDigestEncryptionAlgorithm (toy_signer [] [1])) (siDigestAlgorithm (toy_signer [] [1])) =
      Inr SHA256WithRSA"
    by (simp add: toy_signer_def algOnly_def getSignatureAlgorithm_def getRSASignatureAlgorithm_def ml_defs)
  then show ?thesis
    using toy_document_cert [of "[7]" "[]" "[1]"]
    by (simp add: authentic_def) (simp add: toy_document_def toy_signer_def toy_x509_def)
qed

lemma toy_verifies:
  "VerifyWithOpts toy_x509 toy_signing clock (toy_document [7] [] [1]) toy_options = Inr ()"
proof -
  have "verifySignature toy_x509 toy_signing now (toy_document [7] [] [1]) (toy_signer [] [1]) opts = Inr ()"
    if "Roots opts = None" for now opts
    using toy_authentic that by (auto simp: verifySignature_iff timely_def signingTime_def toy_signer_def trusted_def)
  then show ?thesis by (simp add: VerifyWithOpts_def toy_document_def toy_options_def)
qed



text \<open>
  C26: Content that was changed after signing is reported: if the digest of the content is not the one in
  the attributes of the first signer, verification fails with both digests, whatever the key,
  the options and the other signers.
\<close>

theorem changed_content_reported:
  assumes "Signers p7 = signer # signers" "siAuthenticatedAttributes signer \<noteq> []"
    and "getCertFromCertsByIssuerAndSerial (Certificates p7) (siIssuerAndSerialNumber signer) = Some ee"
    and "unmarshalAttribute (siAuthenticatedAttributes signer) OIDAttributeMessageDigest (unmarshalInto parseOctets) [] = (digest, Inr ())"
    and "getHashForOID (algOID (siDigestAlgorithm signer)) = Inr hash" "hash_Sum S hash (Content p7) \<noteq> digest"
  shows "VerifyWithOpts X S clock p7 opts = Inl (SignError (MessageDigestMismatchError digest (hash_Sum S hash (Content p7))))"
  using assms by (simp add: VerifyWithOpts_def Let_def verifySignature_def verifySignatureAtTime_def
      checkSignedAttributes_def checkMessageDigest_def ConstantTimeCompare_def)

text \<open>The attribute holds the digest [2], the content has the digest [1].\<close>

theorem changed_content_reported_witness:
  "VerifyWithOpts toy_x509 toy_signing (\<lambda>_. 5)
     (toy_document [7] [\<lparr>attrType = OIDAttributeMessageDigest, attrValue = rawOf 0 17 True [4, 1, 2]\<rparr>] [1]) toy_options =
   Inl (SignError (MessageDigestMismatchError [2] [1]))"
proof -
  let ?attrs = "[\<lparr>attrType = OIDAttributeMessageDigest, attrValue = rawOf 0 17 True [4, 1, 2]\<rparr>]"
  let ?p7 = "toy_document [7] ?attrs [1]"
  have "Signers ?p7 = toy_signer ?attrs [1] # []" by (simp add: toy_document_def)
  moreover have "siAuthenticatedAttributes (toy_signer ?attrs [1]) \<noteq> []" by (simp add: toy_signer_def)
  moreover have "unmarshalAttribute (siAuthenticatedAttributes (toy_signer ?attrs [1])) OIDAttributeMessageDigest
      (unmarshalInto parseOctets) [] = ([2], Inr ())"
    using octets.dec_enc [of "[2]" "[]"] by (simp add: toy_signer_def unmarshalInto_def rawOf_def encode_eval)
  moreover have "getHashForOID (algOID (siDigestAlgorithm (toy_signer ?attrs [1]))) = Inr SHA256"
    by (simp add: toy_signer_def algOnly_def getHashForOID_def)
  moreover have "hash_Sum toy_signing SHA256 (Content ?p7) = [1]" by (simp add: toy_document_def toy_signing_def)
  ultimately show ?thesis
    using changed_content_reported [OF _ _ toy_document_cert, of "[7]" ?attrs "[1]" "[]" "[2]" SHA256 toy_signing] by simp
qed

text \<open>
  C27: \<open>GetOnlySigner\<close> names the signer of a verified document: when it returns a certificate, that
  certificate is in the document and checks the one signature there is.
\<close>

theorem only_signer_authentic:
  assumes "VerifyWithOpts X S clock p7 opts = Inr ()" "GetOnlySigner p7 = Some ee"
  shows "\<exists>signer. Signers p7 = [signer] \<and> ee \<in> set (Certificates p7) \<and> authentic X S p7 signer ee"
proof -
  from assms(2) obtain signer where signer: "Signers p7 = [signer]"
    and ee: "getCertFromCertsByIssuerAndSerial (Certificates p7) (siIssuerAndSerialNumber signer) = Some ee"
    by (auto simp: GetOnlySigner_def split: list.splits)
  from assms(1) signer obtain now opts' where
    "verifySignature X S now p7 signer opts' = Inr () \<or> verifySignatureAtTime X S p7 signer opts' = Inr ()"
    by (auto simp: VerifyWithOpts_def Let_def and_then_Inr_iff split: if_splits)
  then have "\<exists>ee. authentic X S p7 signer ee" by (auto simp: verifySignature_iff verifySignatureAtTime_iff)
  moreover have "ee' = ee" if "authentic X S p7 signer ee'" for ee' using that ee by (simp add: authentic_def)
  ultimately have "authentic X S p7 signer ee" by blast
  with signer getCert_Some [OF ee] show ?thesis by blast
qed

theorem only_signer_authentic_witness:
  "authentic toy_x509 toy_signing (toy_document [7] [] [1]) (toy_signer [] [1]) (toy_certificate (RSAPublicKey [1]) 1)"
proof -
  have "VerifyWithOpts toy_x509 toy_signing (\<lambda>_. 5) (toy_document [7] [] [1]) toy_options = Inr ()" by (rule toy_verifies)
  moreover have "GetOnlySigner (toy_document [7] [] [1]) = Some (toy_certificate (RSAPublicKey [1]) 1)"
    using toy_document_cert [of "[7]" "[]" "[1]"] by (simp add: GetOnlySigner_def toy_document_def)
  ultimately have "\<exists>signer. Signers (toy_document [7] [] [1]) = [signer] \<and>
      toy_certificate (RSAPublicKey [1]) 1 \<in> set (Certificates (toy_document [7] [] [1])) \<and>
      authentic toy_x509 toy_signing (toy_document [7] [] [1]) signer (toy_certificate (RSAPublicKey [1]) 1)"
    by (rule only_signer_authentic)
  then show ?thesis by (simp add: toy_document_def)
qed

end
