(* ===== verification/Sign.thy ===== *)
theory Sign
  imports Verify
begin

text \<open>
  Signing (\<open>sign.go\<close>): the state of a \<open>SignedData\<close>, the operations on it, and \<open>Finish\<close>. An operation that can
  fail returns the state it leaves next to its result, since it may have changed the state before
  it failed.
\<close>

section \<open>State\<close>

record SignedData =
  sd :: signedData
  certs :: "Certificate list"
  sdData :: bytes
  messageDigest :: bytes
  digestOid :: oid
  encryptionOid :: "oid option"

definition emptySignedData :: "contentInfo \<Rightarrow> signedData" where
  "emptySignedData ci = \<lparr>sdVersion = 1, sdDigestAlgorithmIdentifiers = [], sdContentInfo = ci, sdCertificates = [],
     sdCRLs = None, sdSignerInfos = []\<rparr>"

definition NewSignedData :: "bytes \<Rightarrow> SignedData" where
  "NewSignedData data =
     \<lparr>sd = emptySignedData \<lparr>ciContentType = OIDData, ciContent = rawOf 2 0 True (marshalOctets data)\<rparr>,
      certs = [], sdData = data, messageDigest = [], digestOid = OIDDigestAlgorithmSHA1, encryptionOid = None\<rparr>"

record SignerInfoConfig =
  ExtraSignedAttributes :: "Attribute list"
  ExtraUnsignedAttributes :: "Attribute list"
  SkipCertificates :: bool
  SkipSigningTime :: bool

text \<open>No options, for witnesses.\<close>

definition toy_config :: SignerInfoConfig where
  "toy_config = \<lparr>ExtraSignedAttributes = [], ExtraUnsignedAttributes = [], SkipCertificates = False, SkipSigningTime = False\<rparr>"

section \<open>Simple operations\<close>

definition SetDigestAlgorithm :: "oid \<Rightarrow> SignedData \<Rightarrow> SignedData" where
  "SetDigestAlgorithm d st = st\<lparr>digestOid := d\<rparr>"

definition SetEncryptionAlgorithm :: "oid option \<Rightarrow> SignedData \<Rightarrow> SignedData" where
  "SetEncryptionAlgorithm d st = st\<lparr>encryptionOid := d\<rparr>"

definition AddCertificate :: "Certificate \<Rightarrow> SignedData \<Rightarrow> SignedData" where
  "AddCertificate cert st = st\<lparr>certs := certs st @ [cert]\<rparr>"

definition SetContentType :: "oid \<Rightarrow> SignedData \<Rightarrow> SignedData" where
  "SetContentType contentType st = st\<lparr>sd := (sd st)\<lparr>sdContentInfo := (sdContentInfo (sd st))\<lparr>ciContentType := contentType\<rparr>\<rparr>\<rparr>"

definition Detach :: "SignedData \<Rightarrow> SignedData" where
  "Detach st = st\<lparr>sd := (sd st)\<lparr>sdContentInfo := \<lparr>ciContentType = OIDData, ciContent = rawZero\<rparr>\<rparr>\<rparr>"

definition RemoveAuthenticatedAttributes :: "SignedData \<Rightarrow> SignedData" where
  "RemoveAuthenticatedAttributes st = st\<lparr>sd := (sd st)\<lparr>sdSignerInfos :=
     map (\<lambda>si. si\<lparr>siAuthenticatedAttributes := []\<rparr>) (sdSignerInfos (sd st))\<rparr>\<rparr>"

definition RemoveUnauthenticatedAttributes :: "SignedData \<Rightarrow> SignedData" where
  "RemoveUnauthenticatedAttributes st = st\<lparr>sd := (sd st)\<lparr>sdSignerInfos :=
     map (\<lambda>si. si\<lparr>siUnauthenticatedAttributes := []\<rparr>) (sdSignerInfos (sd st))\<rparr>\<rparr>"

definition addAll :: "Attribute list \<Rightarrow> attributes" where
  "addAll extra = fold (\<lambda>attr. attributes_Add (AttributeType attr) (AttributeValue attr)) extra noAttributes"

definition SetUnauthenticatedAttributes :: "signing \<Rightarrow> Attribute list \<Rightarrow> signerInfo \<Rightarrow> signerInfo result" where
  "SetUnauthenticatedAttributes S extraUnsignedAttrs si =
     and_then (ForMarshalling S (addAll extraUnsignedAttrs)) (\<lambda>finalUnsignedAttrs.
       Inr (si\<lparr>siUnauthenticatedAttributes := finalUnsignedAttrs\<rparr>))"

definition GetSignedData :: "SignedData \<Rightarrow> signedData" where
  "GetSignedData st = sd st"

section \<open>Algorithms and signatures\<close>

datatype cmsSigningMode = cmsSigningModePreHashed | cmsSigningModeDSA | cmsSigningModeEd25519 | cmsSigningModeMLDSA

record cmsSignerAlgorithm =
  cmsDigestOID :: oid
  cmsSignatureOID :: oid
  cmsMode :: cmsSigningMode

definition getCMSSignerAlgorithm :: "PrivateKey \<Rightarrow> oid \<Rightarrow> oid option \<Rightarrow> cmsSignerAlgorithm result" where
  "getCMSSignerAlgorithm key digest configuredSignatureOID = (case key of
     DSAPrivateKey _ \<Rightarrow> and_then (getOIDForEncryptionAlgorithm key digest) (\<lambda>signatureOID.
       Inr \<lparr>cmsDigestOID = digest, cmsSignatureOID = signatureOID, cmsMode = cmsSigningModeDSA\<rparr>)
   | _ \<Rightarrow> (case signerPublic key of
       None \<Rightarrow> Inl (SignError PrivateKeyNotSigner)
     | Some public \<Rightarrow> (case mlDSAAlgorithmForPublicKey public of
         Some algorithm \<Rightarrow> Inr \<lparr>cmsDigestOID = OIDDigestAlgorithmSHA512, cmsSignatureOID = mlOID algorithm, cmsMode = cmsSigningModeMLDSA\<rparr>
       | None \<Rightarrow>
           and_then (case configuredSignatureOID of Some oid \<Rightarrow> Inr oid
                     | None \<Rightarrow> getOIDForEncryptionAlgorithm key digest) (\<lambda>signatureOID.
             Inr \<lparr>cmsDigestOID = digest, cmsSignatureOID = signatureOID,
               cmsMode = (case public of Ed25519PublicKey _ \<Rightarrow> cmsSigningModeEd25519 | _ \<Rightarrow> cmsSigningModePreHashed)\<rparr>))))"

definition marshalDSASignature :: "int \<times> int \<Rightarrow> bytes result" where
  "marshalDSASignature = (\<lambda>(r, s). marshalSequence [Inr (marshalInt r), Inr (marshalInt s)])"

text \<open>The type assertions on the key panic when they fail.\<close>

definition cms_sign :: "signing \<Rightarrow> cmsSignerAlgorithm \<Rightarrow> PrivateKey \<Rightarrow> bytes \<Rightarrow> Hash \<Rightarrow> entropy \<Rightarrow> (bytes \<times> entropy) result" where
  "cms_sign S algorithm key data digestAlg ent =
     (if cmsMode algorithm = cmsSigningModeDSA
      then (case key of
          DSAPrivateKey pkey \<Rightarrow> and_then (dsa_Sign S pkey (hash_Sum S digestAlg data) ent) (\<lambda>(rs, ent).
            and_then (marshalDSASignature rs) (\<lambda>bs. Inr (bs, ent)))
        | _ \<Rightarrow> Inl PanicNil)
      else (case signerPublic key of
          None \<Rightarrow> Inl PanicNil
        | Some _ \<Rightarrow> (case cmsMode algorithm of
            cmsSigningModeEd25519 \<Rightarrow> signer_Sign S key data (HashOpts None) ent
          | cmsSigningModeMLDSA \<Rightarrow> signer_Sign S key data MLDSAOptions ent
          | _ \<Rightarrow> signer_Sign S key (hash_Sum S digestAlg data) (HashOpts (Some digestAlg)) ent)))"

fun verifyPartialChain :: "x509 \<Rightarrow> Certificate \<Rightarrow> Certificate list \<Rightarrow> unit result" where
  "verifyPartialChain X cert [] = Inl (SignError ZeroParents)"
| "verifyPartialChain X cert (parent # parents) = (case CheckSignatureFrom X cert parent of
     Inl e \<Rightarrow> Inl (Wrapped ParentSignatureInvalid e)
   | Inr _ \<Rightarrow> if parents = [] then Inr () else verifyPartialChain X parent parents)"

section \<open>Adding a signer\<close>

text \<open>The loop over the extra signed attributes: at most one signing time is taken over.\<close>

fun addExtraSigned :: "bool \<Rightarrow> bool \<Rightarrow> Attribute list \<Rightarrow> attributes \<Rightarrow> attributes" where
  "addExtraSigned skip added [] attrs = attrs"
| "addExtraSigned skip added (attr # extra) attrs =
     (if AttributeType attr = OIDAttributeSigningTime
      then (if skip \<or> added then addExtraSigned skip added extra attrs
            else addExtraSigned skip True extra (attributes_Add (AttributeType attr) (AttributeValue attr) attrs))
      else addExtraSigned skip added extra (attributes_Add (AttributeType attr) (AttributeValue attr) attrs))"

definition signedAttributes :: "int \<Rightarrow> oid \<Rightarrow> bytes \<Rightarrow> SignerInfoConfig \<Rightarrow> attributes" where
  "signedAttributes now contentType digest config =
     (let attrs = attributes_Add OIDAttributeContentType (ValueOID contentType) noAttributes;
          attrs = attributes_Add OIDAttributeMessageDigest (ValueOctets digest) attrs;
          hasExplicitSigningTime = (\<exists>attr \<in> set (ExtraSignedAttributes config). AttributeType attr = OIDAttributeSigningTime);
          attrs = (if \<not> SkipSigningTime config \<and> \<not> hasExplicitSigningTime
                   then attributes_Add OIDAttributeSigningTime (ValueTime now) attrs else attrs)
      in addExtraSigned (SkipSigningTime config) False (ExtraSignedAttributes config) attrs)"

definition addDigestAlgorithm :: "oid \<Rightarrow> SignedData \<Rightarrow> SignedData" where
  "addDigestAlgorithm oid st =
     st\<lparr>sd := (sd st)\<lparr>sdDigestAlgorithmIdentifiers := sdDigestAlgorithmIdentifiers (sd st) @ [algOnly oid]\<rparr>\<rparr>"

definition addSignerInfo :: "signerInfo \<Rightarrow> Certificate list \<Rightarrow> SignedData \<Rightarrow> SignedData" where
  "addSignerInfo si cs st =
     st\<lparr>certs := certs st @ cs, sd := (sd st)\<lparr>sdSignerInfos := sdSignerInfos (sd st) @ [si]\<rparr>\<rparr>"

text \<open>The part of \<open>AddSignerChain\<close> after the message digest is set: attributes and signature.\<close>

definition chainSignerInfo ::
  "signing \<Rightarrow> int \<Rightarrow> SignedData \<Rightarrow> cmsSignerAlgorithm \<Rightarrow> Hash \<Rightarrow> issuerAndSerial \<Rightarrow> PrivateKey \<Rightarrow> SignerInfoConfig \<Rightarrow>
     entropy \<Rightarrow> (signerInfo \<times> entropy) result" where
  "chainSignerInfo S now st algorithm hash ias key config ent =
     and_then (ForMarshalling S (signedAttributes now (ciContentType (sdContentInfo (sd st))) (messageDigest st) config)) (\<lambda>finalAttrs.
     and_then (ForMarshalling S (addAll (ExtraUnsignedAttributes config))) (\<lambda>finalUnsignedAttrs.
     and_then (marshalAttributes finalAttrs) (\<lambda>attrBytes.
     and_then (cms_sign S algorithm key attrBytes hash ent) (\<lambda>(signature, ent).
       Inr (\<lparr>siVersion = 1, siIssuerAndSerialNumber = ias, siDigestAlgorithm = algOnly (cmsDigestOID algorithm),
         siAuthenticatedAttributes = finalAttrs, siDigestEncryptionAlgorithm = algOnly (cmsSignatureOID algorithm),
         siEncryptedDigest = signature, siUnauthenticatedAttributes = finalUnsignedAttrs\<rparr>, ent)))))"

text \<open>The issuer of the signer: the end entity's, or the subject of its first parent if the chain holds.\<close>

definition chainIssuer :: "x509 \<Rightarrow> Certificate \<Rightarrow> Certificate list \<Rightarrow> bytes result" where
  "chainIssuer X ee parents = (case parents of
     [] \<Rightarrow> Inr (RawIssuer ee)
   | parent # _ \<Rightarrow> and_then (verifyPartialChain X ee parents) (\<lambda>_. Inr (RawSubject parent)))"

definition AddSignerChain ::
  "x509 \<Rightarrow> signing \<Rightarrow> int \<Rightarrow> Certificate \<Rightarrow> PrivateKey \<Rightarrow> Certificate list \<Rightarrow> SignerInfoConfig \<Rightarrow> SignedData \<Rightarrow> entropy \<Rightarrow>
     SignedData \<times> entropy result" where
  "AddSignerChain X S now ee key parents config st ent =
     (case and_then (getCMSSignerAlgorithm key (digestOid st) None) (\<lambda>algorithm.
             and_then (chainIssuer X ee parents) (\<lambda>issuer. Inr (algorithm, issuer))) of
       Inl e \<Rightarrow> (st, Inl e)
     | Inr (algorithm, issuer) \<Rightarrow>
         let st = addDigestAlgorithm (cmsDigestOID algorithm) st in
         (case getHashForOID (cmsDigestOID algorithm) of
           Inl e \<Rightarrow> (st, Inl e)
         | Inr hash \<Rightarrow>
             let st = st\<lparr>messageDigest := hash_Sum S hash (sdData st)\<rparr>;
                 ias = \<lparr>IssuerName = rawFull issuer, SerialNumber = certSerialNumber ee\<rparr> in
             (case chainSignerInfo S now st algorithm hash ias key config ent of
               Inl e \<Rightarrow> (st, Inl e)
             | Inr (si, ent) \<Rightarrow> (addSignerInfo si (if SkipCertificates config then [] else ee # parents) st, Inr ent))))"

definition AddSigner ::
  "x509 \<Rightarrow> signing \<Rightarrow> int \<Rightarrow> Certificate \<Rightarrow> PrivateKey \<Rightarrow> SignerInfoConfig \<Rightarrow> SignedData \<Rightarrow> entropy \<Rightarrow>
     SignedData \<times> entropy result" where
  "AddSigner X S now ee key config st ent = AddSignerChain X S now ee key [] config st ent"

definition SignWithoutAttr ::
  "signing \<Rightarrow> Certificate \<Rightarrow> PrivateKey \<Rightarrow> SignerInfoConfig \<Rightarrow> SignedData \<Rightarrow> entropy \<Rightarrow> SignedData \<times> entropy result" where
  "SignWithoutAttr S ee key config st ent =
     (case getCMSSignerAlgorithm key (digestOid st) (encryptionOid st) of
       Inl e \<Rightarrow> (st, Inl e)
     | Inr algorithm \<Rightarrow>
         let st = addDigestAlgorithm (cmsDigestOID algorithm) st in
         (case getHashForOID (cmsDigestOID algorithm) of
           Inl e \<Rightarrow> (st, Inl e)
         | Inr hash \<Rightarrow>
             let st = st\<lparr>messageDigest := hash_Sum S hash (sdData st)\<rparr> in
             (case cms_sign S algorithm key (sdData st) hash ent of
               Inl e \<Rightarrow> (st, Inl e)
             | Inr (signature, ent) \<Rightarrow>
                 (addSignerInfo \<lparr>siVersion = 1,
                    siIssuerAndSerialNumber = \<lparr>IssuerName = rawFull (RawIssuer ee), SerialNumber = certSerialNumber ee\<rparr>,
                    siDigestAlgorithm = algOnly (cmsDigestOID algorithm), siAuthenticatedAttributes = [],
                    siDigestEncryptionAlgorithm = algOnly (cmsSignatureOID algorithm), siEncryptedDigest = signature,
                    siUnauthenticatedAttributes = []\<rparr> [ee] st, Inr ent))))"

section \<open>Finishing\<close>

definition marshalCertificateBytes :: "bytes \<Rightarrow> bytes" where
  "marshalCertificateBytes cs = marshalRaw (rawOf 2 0 True cs)"

definition marshalCertificates :: "Certificate list \<Rightarrow> bytes" where
  "marshalCertificates cs = marshalCertificateBytes (concat (map certRaw cs))"

definition Finish :: "x509 \<Rightarrow> SignedData \<Rightarrow> SignedData \<times> bytes result" where
  "Finish X st =
     (let st = st\<lparr>sd := (sd st)\<lparr>sdCertificates := marshalCertificates (certs st)\<rparr>\<rparr> in
      (st, and_then (marshalSD X (sd st)) (wrapContent OIDSignedData)))"

definition DegenerateCertificate :: "x509 \<Rightarrow> bytes \<Rightarrow> bytes result" where
  "DegenerateCertificate X cert =
     and_then (marshalSD X ((emptySignedData \<lparr>ciContentType = OIDData, ciContent = rawZero\<rparr>)
         \<lparr>sdCertificates := marshalCertificateBytes cert, sdCRLs := Some []\<rparr>)) (wrapContent OIDSignedData)"

end
