(* ===== verification/SignLaws.thy ===== *)
theory SignLaws
  imports Sign
begin

text \<open>
  What the signing operations keep and establish: the chain check, the signing time, what a failed
  operation leaves behind, and the invariant of every state a client can reach.
\<close>

section \<open>The chain\<close>

text \<open>
  C29: \<open>verifyPartialChain\<close> accepts exactly the non-empty lists of parents in which every certificate is
  signed by the next one, starting with the end entity.
\<close>

theorem verifyPartialChain_exact:
  "verifyPartialChain X cert parents = Inr () \<longleftrightarrow> parents \<noteq> [] \<and>
     (\<forall>i < length parents. CheckSignatureFrom X ((cert # parents) ! i) (parents ! i) = Inr ())"
proof (induction X cert parents rule: verifyPartialChain.induct)
  case (2 X cert parent parents)
  have "(\<forall>i < length (parent # parents). CheckSignatureFrom X ((cert # parent # parents) ! i) ((parent # parents) ! i) = Inr ()) \<longleftrightarrow>
      CheckSignatureFrom X cert parent = Inr () \<and>
      (\<forall>i < length parents. CheckSignatureFrom X ((parent # parents) ! i) (parents ! i) = Inr ())"
    by (auto simp: less_Suc_eq_0_disj)
  with 2 show ?case by (cases "CheckSignatureFrom X cert parent") auto
qed simp

theorem verifyPartialChain_exact_witness:
  "verifyPartialChain toy_x509 (toy_certificate (RSAPublicKey [1]) 1) [toy_certificate (RSAPublicKey [2]) 2] = Inr ()"
  by (subst verifyPartialChain_exact) (simp add: toy_x509_def)

section \<open>Signed attributes\<close>

lemma addExtraSigned_wf [simp]: "wf_attributes (addExtraSigned skip added extra attrs) = wf_attributes attrs"
  by (induction skip added extra attrs rule: addExtraSigned.induct) auto

lemma addExtraSigned_pairs:
  "wf_attributes attrs \<Longrightarrow> set (pairs attrs) \<subseteq> set (pairs (addExtraSigned skip added extra attrs))"
  "wf_attributes attrs \<Longrightarrow> p \<in> set (pairs (addExtraSigned skip added extra attrs)) \<Longrightarrow>
     p \<in> set (pairs attrs) \<or> (\<exists>a \<in> set extra. p = (AttributeType a, AttributeValue a))"
  by (induction skip added extra attrs rule: addExtraSigned.induct) (auto split: if_splits)

definition isSigningTime :: "oid \<times> attributeValue \<Rightarrow> bool" where
  "isSigningTime p \<longleftrightarrow> fst p = OIDAttributeSigningTime"

lemma addExtraSigned_times:
  assumes "wf_attributes attrs"
  shows "filter isSigningTime (pairs (addExtraSigned skip added extra attrs)) = filter isSigningTime (pairs attrs) @
    (if skip \<or> added then [] else (case find (\<lambda>a. AttributeType a = OIDAttributeSigningTime) extra of
       None \<Rightarrow> [] | Some a \<Rightarrow> [(OIDAttributeSigningTime, AttributeValue a)]))"
  using assms
  by (induction skip added extra attrs rule: addExtraSigned.induct) (auto simp: isSigningTime_def split: option.splits)

lemma signedAttributes_times: "length (filter isSigningTime (pairs (signedAttributes now t digest config))) \<le> 1"
proof (cases "find (\<lambda>a. AttributeType a = OIDAttributeSigningTime) (ExtraSignedAttributes config)")
  case None
  then show ?thesis by (simp add: signedAttributes_def Let_def addExtraSigned_times) (simp add: isSigningTime_def)
next
  case (Some a)
  then have "\<exists>a \<in> set (ExtraSignedAttributes config). AttributeType a = OIDAttributeSigningTime"
    by (auto simp: find_Some_iff)
  with Some show ?thesis
    by (simp add: signedAttributes_def Let_def addExtraSigned_times) (simp add: isSigningTime_def)
qed

text \<open>
  C30: The signed attributes carry no signing time when it is to be skipped, and exactly one otherwise:
  the first explicit one, or the current time if there is none.
\<close>

theorem signing_time_once:
  "filter isSigningTime (pairs (signedAttributes now contentType digest config)) =
     (if SkipSigningTime config then []
      else [(OIDAttributeSigningTime,
        (case find (\<lambda>a. AttributeType a = OIDAttributeSigningTime) (ExtraSignedAttributes config) of
           None \<Rightarrow> ValueTime now | Some a \<Rightarrow> AttributeValue a))])"
proof (cases "find (\<lambda>a. AttributeType a = OIDAttributeSigningTime) (ExtraSignedAttributes config)")
  case None
  then have "\<not> (\<exists>a \<in> set (ExtraSignedAttributes config). AttributeType a = OIDAttributeSigningTime)"
    by (simp add: find_None_iff)
  with None show ?thesis
    by (simp add: signedAttributes_def Let_def addExtraSigned_times) (simp add: isSigningTime_def)
next
  case (Some a)
  then have "\<exists>a \<in> set (ExtraSignedAttributes config). AttributeType a = OIDAttributeSigningTime"
    by (auto simp: find_Some_iff)
  with Some show ?thesis
    by (simp add: signedAttributes_def Let_def addExtraSigned_times) (simp add: isSigningTime_def)
qed

section \<open>Failure\<close>

lemma addDigestAlgorithm_simps [simp]:
  "sdSignerInfos (sd (addDigestAlgorithm oid st)) = sdSignerInfos (sd st)"
  "sdDigestAlgorithmIdentifiers (sd (addDigestAlgorithm oid st)) = sdDigestAlgorithmIdentifiers (sd st) @ [algOnly oid]"
  "sdContentInfo (sd (addDigestAlgorithm oid st)) = sdContentInfo (sd st)"
  "sdVersion (sd (addDigestAlgorithm oid st)) = sdVersion (sd st)" "sdCRLs (sd (addDigestAlgorithm oid st)) = sdCRLs (sd st)"
  "certs (addDigestAlgorithm oid st) = certs st" "sdData (addDigestAlgorithm oid st) = sdData st"
  "digestOid (addDigestAlgorithm oid st) = digestOid st" "encryptionOid (addDigestAlgorithm oid st) = encryptionOid st"
  by (simp_all add: addDigestAlgorithm_def)

lemma addSignerInfo_simps [simp]:
  "sdSignerInfos (sd (addSignerInfo si cs st)) = sdSignerInfos (sd st) @ [si]"
  "sdDigestAlgorithmIdentifiers (sd (addSignerInfo si cs st)) = sdDigestAlgorithmIdentifiers (sd st)"
  "sdContentInfo (sd (addSignerInfo si cs st)) = sdContentInfo (sd st)"
  "sdVersion (sd (addSignerInfo si cs st)) = sdVersion (sd st)" "sdCRLs (sd (addSignerInfo si cs st)) = sdCRLs (sd st)"
  "certs (addSignerInfo si cs st) = certs st @ cs" "sdData (addSignerInfo si cs st) = sdData st"
  "digestOid (addSignerInfo si cs st) = digestOid st" "encryptionOid (addSignerInfo si cs st) = encryptionOid st"
  by (simp_all add: addSignerInfo_def)

text \<open>How an attempt to add a signer can end.\<close>

lemma AddSignerChain_cases:
  obtains (refused) e where "AddSignerChain X S now ee key parents config st ent = (st, Inl e)"
  | (failed) algorithm e digest where "getCMSSignerAlgorithm key (digestOid st) None = Inr algorithm"
      "AddSignerChain X S now ee key parents config st ent =
         (addDigestAlgorithm (cmsDigestOID algorithm) st\<lparr>messageDigest := digest\<rparr>, Inl e)"
  | (added) algorithm issuer hash si ent' where
      "getCMSSignerAlgorithm key (digestOid st) None = Inr algorithm" "chainIssuer X ee parents = Inr issuer"
      "getHashForOID (cmsDigestOID algorithm) = Inr hash"
      "chainSignerInfo S now (addDigestAlgorithm (cmsDigestOID algorithm) st\<lparr>messageDigest := hash_Sum S hash (sdData st)\<rparr>)
         algorithm hash \<lparr>IssuerName = rawFull issuer, SerialNumber = certSerialNumber ee\<rparr> key config ent = Inr (si, ent')"
      "AddSignerChain X S now ee key parents config st ent =
         (addSignerInfo si (if SkipCertificates config then [] else ee # parents)
            (addDigestAlgorithm (cmsDigestOID algorithm) st\<lparr>messageDigest := hash_Sum S hash (sdData st)\<rparr>), Inr ent')"
proof -
  let ?r = "and_then (getCMSSignerAlgorithm key (digestOid st) None) (\<lambda>algorithm.
    and_then (chainIssuer X ee parents) (\<lambda>issuer. Inr (algorithm, issuer)))"
  show thesis
  proof (cases ?r)
    case (Inl e)
    then show thesis by (intro refused) (simp add: AddSignerChain_def)
  next
    case (Inr r)
    then obtain algorithm issuer where r: "getCMSSignerAlgorithm key (digestOid st) None = Inr algorithm"
      "chainIssuer X ee parents = Inr issuer" "r = (algorithm, issuer)" by auto
    let ?st = "addDigestAlgorithm (cmsDigestOID algorithm) st"
    have same: "?st\<lparr>messageDigest := messageDigest st\<rparr> = ?st" by (simp add: addDigestAlgorithm_def)
    show thesis
    proof (cases "getHashForOID (cmsDigestOID algorithm)")
      case (Inl e)
      with r show thesis by (intro failed [of algorithm "messageDigest st" e]) (simp_all add: AddSignerChain_def Let_def same)
    next
      case hash: (Inr hash)
      let ?st2 = "?st\<lparr>messageDigest := hash_Sum S hash (sdData st)\<rparr>"
      let ?ias = "\<lparr>IssuerName = rawFull issuer, SerialNumber = certSerialNumber ee\<rparr>"
      show thesis
      proof (cases "chainSignerInfo S now ?st2 algorithm hash ?ias key config ent")
        case (Inl e)
        with r hash show thesis by (intro failed) (simp_all add: AddSignerChain_def Let_def)
      next
        case (Inr s)
        then obtain si ent' where "chainSignerInfo S now ?st2 algorithm hash ?ias key config ent = Inr (si, ent')" by (cases s) simp
        with r hash show thesis by (intro added) (simp_all add: AddSignerChain_def Let_def)
      qed
    qed
  qed
qed

text \<open>
  C31: A signer that cannot be added leaves signers and certificates as they are, but not always the
  document: the digest algorithm may have been appended already.
\<close>

theorem failed_signer:
  assumes "AddSignerChain X S now ee key parents config st ent = (st', Inl e)"
  shows "sdSignerInfos (sd st') = sdSignerInfos (sd st) \<and> certs st' = certs st \<and>
    (st' = st \<or> (\<exists>d. sdDigestAlgorithmIdentifiers (sd st') = sdDigestAlgorithmIdentifiers (sd st) @ [algOnly d]))"
  by (rule AddSignerChain_cases [of X S now ee key parents config st ent]) (use assms in auto)

text \<open>A digest algorithm that is not supported is refused only after it has been recorded.\<close>

theorem failed_signer_witness:
  "\<exists>st' e. AddSignerChain toy_x509 toy_signing 5 (toy_certificate (RSAPublicKey [1]) 1) (RSAPrivateKey [5] [1]) []
       toy_config
       (SetDigestAlgorithm OIDData (NewSignedData [7])) [] = (st', Inl e) \<and>
     sdDigestAlgorithmIdentifiers (sd st') = [algOnly OIDData] \<and>
     sdSignerInfos (sd st') = [] \<and> certs st' = []"
proof -
  let ?st = "SetDigestAlgorithm OIDData (NewSignedData [7])"
  have run: "AddSignerChain toy_x509 toy_signing 5 (toy_certificate (RSAPublicKey [1]) 1) (RSAPrivateKey [5] [1]) [] toy_config ?st []
      = (addDigestAlgorithm OIDData ?st, Inl ErrUnsupportedAlgorithm)"
    by (simp add: AddSignerChain_def getCMSSignerAlgorithm_def getOIDForEncryptionAlgorithm_def oidForPublicKey_def
        mlDSAAlgorithmForPublicKey_def chainIssuer_def SetDigestAlgorithm_def getHashForOID_def Let_def)
  from failed_signer [OF run] run show ?thesis
    by (simp add: SetDigestAlgorithm_def NewSignedData_def emptySignedData_def)
qed

end
