(* ===== verification/SignState.thy ===== *)
theory SignState
  imports SignLaws
begin

text \<open>
  The states a client of \<open>SignedData\<close> can reach, by any sequence of its operations, failed ones
  included, and the invariant of all of them.
\<close>

section \<open>Reachable states\<close>

inductive reachable :: "x509 \<Rightarrow> signing \<Rightarrow> bytes \<Rightarrow> SignedData \<Rightarrow> bool" for X S data where
  new: "reachable X S data (NewSignedData data)"
| set_digest: "reachable X S data st \<Longrightarrow> reachable X S data (SetDigestAlgorithm d st)"
| set_encryption: "reachable X S data st \<Longrightarrow> reachable X S data (SetEncryptionAlgorithm e st)"
| add_certificate: "reachable X S data st \<Longrightarrow> reachable X S data (AddCertificate cert st)"
| set_content_type: "reachable X S data st \<Longrightarrow> reachable X S data (SetContentType t st)"
| detach: "reachable X S data st \<Longrightarrow> reachable X S data (Detach st)"
| remove_authenticated: "reachable X S data st \<Longrightarrow> reachable X S data (RemoveAuthenticatedAttributes st)"
| remove_unauthenticated: "reachable X S data st \<Longrightarrow> reachable X S data (RemoveUnauthenticatedAttributes st)"
| add_signer_chain: "reachable X S data st \<Longrightarrow> AddSignerChain X S now ee key parents config st ent = (st', r) \<Longrightarrow>
    reachable X S data st'"
| sign_without_attr: "reachable X S data st \<Longrightarrow> SignWithoutAttr S ee key config st ent = (st', r) \<Longrightarrow> reachable X S data st'"
| finish: "reachable X S data st \<Longrightarrow> Finish X st = (st', r) \<Longrightarrow> reachable X S data st'"

lemmas operation_defs = SetDigestAlgorithm_def SetEncryptionAlgorithm_def AddCertificate_def SetContentType_def
  Detach_def RemoveAuthenticatedAttributes_def RemoveUnauthenticatedAttributes_def

section \<open>What an operation can do\<close>

text \<open>The ways \<open>SignWithoutAttr\<close> can end.\<close>

lemma SignWithoutAttr_cases:
  obtains (refused) e where "SignWithoutAttr S ee key config st ent = (st, Inl e)"
  | (failed) algorithm e digest where "getCMSSignerAlgorithm key (digestOid st) (encryptionOid st) = Inr algorithm"
      "SignWithoutAttr S ee key config st ent =
         (addDigestAlgorithm (cmsDigestOID algorithm) st\<lparr>messageDigest := digest\<rparr>, Inl e)"
  | (added) algorithm hash signature ent' where
      "getCMSSignerAlgorithm key (digestOid st) (encryptionOid st) = Inr algorithm"
      "getHashForOID (cmsDigestOID algorithm) = Inr hash"
      "cms_sign S algorithm key (sdData st) hash ent = Inr (signature, ent')"
      "SignWithoutAttr S ee key config st ent =
         (addSignerInfo \<lparr>siVersion = 1, siIssuerAndSerialNumber = cert2issuerAndSerial ee,
              siDigestAlgorithm = algOnly (cmsDigestOID algorithm), siAuthenticatedAttributes = [],
              siDigestEncryptionAlgorithm = algOnly (cmsSignatureOID algorithm), siEncryptedDigest = signature,
              siUnauthenticatedAttributes = []\<rparr> [ee]
            (addDigestAlgorithm (cmsDigestOID algorithm) st\<lparr>messageDigest := hash_Sum S hash (sdData st)\<rparr>), Inr ent')"
proof (cases "getCMSSignerAlgorithm key (digestOid st) (encryptionOid st)")
  case (Inl e)
  then show thesis by (intro refused) (simp add: SignWithoutAttr_def)
next
  case alg: (Inr algorithm)
  let ?st = "addDigestAlgorithm (cmsDigestOID algorithm) st"
  have same: "?st\<lparr>messageDigest := messageDigest st\<rparr> = ?st" by (simp add: addDigestAlgorithm_def)
  show thesis
  proof (cases "getHashForOID (cmsDigestOID algorithm)")
    case (Inl e)
    with alg show thesis
      by (intro failed [of algorithm "messageDigest st" e]) (simp_all add: SignWithoutAttr_def Let_def same)
  next
    case hash: (Inr hash)
    show thesis
    proof (cases "cms_sign S algorithm key (sdData st) hash ent")
      case (Inl e)
      with alg hash show thesis by (intro failed) (simp_all add: SignWithoutAttr_def Let_def)
    next
      case (Inr s)
      then obtain signature ent' where "cms_sign S algorithm key (sdData st) hash ent = Inr (signature, ent')" by (cases s) simp
      with alg hash show thesis by (intro added) (simp_all add: SignWithoutAttr_def Let_def cert2issuerAndSerial_def)
    qed
  qed
qed

lemma chainSignerInfo_Inr:
  assumes "chainSignerInfo S now st algorithm hash ias key config ent = Inr (si, ent')"
  obtains as us signed signature where
    "ForMarshalling S (signedAttributes now (ciContentType (sdContentInfo (sd st))) (messageDigest st) config) = Inr as"
    "ForMarshalling S (addAll (ExtraUnsignedAttributes config)) = Inr us" "marshalAttributes as = Inr signed"
    "cms_sign S algorithm key signed hash ent = Inr (signature, ent')"
    "si = \<lparr>siVersion = 1, siIssuerAndSerialNumber = ias, siDigestAlgorithm = algOnly (cmsDigestOID algorithm),
       siAuthenticatedAttributes = as, siDigestEncryptionAlgorithm = algOnly (cmsSignatureOID algorithm),
       siEncryptedDigest = signature, siUnauthenticatedAttributes = us\<rparr>"
  using assms by (auto simp: chainSignerInfo_def and_then_Inr_iff)

lemma signedAttributes_wf [simp]: "wf_attributes (signedAttributes now t digest config)"
  by (simp add: signedAttributes_def Let_def)

lemma signedAttributes_base:
  "(OIDAttributeContentType, ValueOID t) \<in> set (pairs (signedAttributes now t digest config))"
  "(OIDAttributeMessageDigest, ValueOctets digest) \<in> set (pairs (signedAttributes now t digest config))"
  unfolding signedAttributes_def Let_def by (rule subsetD [OF addExtraSigned_pairs(1)]; simp)+

section \<open>The invariant\<close>

text \<open>The attributes name the digest of the data, under the digest algorithm of the signer.\<close>

definition covers :: "signing \<Rightarrow> bytes \<Rightarrow> signerInfo \<Rightarrow> bool" where
  "covers S data si \<longleftrightarrow> (\<exists>h. getHashForOID (algOID (siDigestAlgorithm si)) = Inr h \<and>
     \<lparr>attrType = OIDAttributeMessageDigest, attrValue = rawOf 0 17 True (marshalOctets (hash_Sum S h data))\<rparr>
       \<in> set (siAuthenticatedAttributes si))"

definition der_sorted :: "attribute list \<Rightarrow> bool" where
  "der_sorted attrs \<longleftrightarrow> sorted (map (projr \<circ> marshalAttribute) attrs)"

definition signer_invariant :: "signing \<Rightarrow> bytes \<Rightarrow> AlgorithmIdentifier list \<Rightarrow> signerInfo \<Rightarrow> bool" where
  "signer_invariant S data algs si \<longleftrightarrow> siVersion si = 1 \<and> siDigestAlgorithm si \<in> set algs \<and>
     der_sorted (siAuthenticatedAttributes si) \<and> der_sorted (siUnauthenticatedAttributes si) \<and>
     (siAuthenticatedAttributes si = [] \<or> covers S data si)"

definition signing_invariant :: "signing \<Rightarrow> bytes \<Rightarrow> SignedData \<Rightarrow> bool" where
  "signing_invariant S data st \<longleftrightarrow> sdData st = data \<and> sdVersion (sd st) = 1 \<and> sdCRLs (sd st) = None \<and>
     ciContent (sdContentInfo (sd st)) \<in> {rawOf 2 0 True (marshalOctets data), rawZero} \<and>
     length (sdSignerInfos (sd st)) \<le> length (sdDigestAlgorithmIdentifiers (sd st)) \<and>
     (\<forall>si \<in> set (sdSignerInfos (sd st)). signer_invariant S data (sdDigestAlgorithmIdentifiers (sd st)) si)"

lemma der_sorted_simps [simp]: "der_sorted []"
  by (simp add: der_sorted_def)

lemma ForMarshalling_der_sorted: "ForMarshalling S attrs = Inr as \<Longrightarrow> der_sorted as"
  unfolding der_sorted_def by (rule ForMarshalling_encodes(4))

lemma signer_invariant_more: "signer_invariant S data algs si \<Longrightarrow> signer_invariant S data (algs @ algs') si"
  by (simp add: signer_invariant_def)

lemma signing_invariant_new: "signing_invariant S data (NewSignedData data)"
  by (simp add: signing_invariant_def NewSignedData_def emptySignedData_def)

lemma signing_invariant_digest:
  "signing_invariant S data st \<Longrightarrow> signing_invariant S data (addDigestAlgorithm d st\<lparr>messageDigest := m\<rparr>)"
  by (auto simp: signing_invariant_def intro: signer_invariant_more)

lemma signing_invariant_signer:
  assumes "signing_invariant S data st" "signer_invariant S data (sdDigestAlgorithmIdentifiers (sd st) @ [algOnly d]) si"
  shows "signing_invariant S data (addSignerInfo si cs (addDigestAlgorithm d st\<lparr>messageDigest := m\<rparr>))"
  using assms by (auto simp: signing_invariant_def intro: signer_invariant_more)

lemma chainSignerInfo_invariant:
  assumes "chainSignerInfo S now st algorithm hash ias key config ent = Inr (si, ent')"
    and "getHashForOID (cmsDigestOID algorithm) = Inr hash" "messageDigest st = hash_Sum S hash data"
  shows "signer_invariant S data (algs @ [algOnly (cmsDigestOID algorithm)]) si"
proof -
  let ?attrs = "signedAttributes now (ciContentType (sdContentInfo (sd st))) (messageDigest st) config"
  from assms(1) obtain as us signed signature where as: "ForMarshalling S ?attrs = Inr as"
    and us: "ForMarshalling S (addAll (ExtraUnsignedAttributes config)) = Inr us"
    and si: "si = \<lparr>siVersion = 1, siIssuerAndSerialNumber = ias, siDigestAlgorithm = algOnly (cmsDigestOID algorithm),
       siAuthenticatedAttributes = as, siDigestEncryptionAlgorithm = algOnly (cmsSignatureOID algorithm),
       siEncryptedDigest = signature, siUnauthenticatedAttributes = us\<rparr>"
    by (rule chainSignerInfo_Inr)
  from ForMarshalling_encodes(2) [OF as] signedAttributes_base(2)
  obtain a where "a \<in> set as" "encodesTo S (OIDAttributeMessageDigest, ValueOctets (messageDigest st)) a" by blast
  then have "covers S data si" using assms(2,3) by (auto simp: covers_def encodesTo_def si)
  with ForMarshalling_der_sorted [OF as] ForMarshalling_der_sorted [OF us] show ?thesis
    by (simp add: signer_invariant_def si)
qed

section \<open>Property\<close>



end
