(* ===== verification/SignedRoundtrip.thy ===== *)
theory SignedRoundtrip
  imports SignState
begin

text \<open>
  From \<open>NewSignedData\<close> to \<open>Verify\<close>: every document made in a session of signing operations parses to
  its content and its certificates, and verifies.
\<close>

section \<open>What signing relies on\<close>

text \<open>
  \<open>crypto.Signer\<close> is given a digest and its hash, or the message itself and no hash (Ed25519), or the
  message and the options of ML-DSA.
\<close>

fun signInput :: "signing \<Rightarrow> PublicKey \<Rightarrow> Hash \<Rightarrow> bytes \<Rightarrow> bytes \<times> SignerOpts" where
  "signInput S (Ed25519PublicKey _) h data = (data, HashOpts None)"
| "signInput S (MLDSAPublicKey _ _) h data = (data, MLDSAOptions)"
| "signInput S _ h data = (hash_Sum S h data, HashOpts (Some h))"

text \<open>A key and a certificate belong together: the certificate checks what the key signs.\<close>

definition key_pair :: "x509 \<Rightarrow> signing \<Rightarrow> PrivateKey \<Rightarrow> Certificate \<Rightarrow> bool" where
  "key_pair X S key ee \<longleftrightarrow> signerPublic key = Some (certPublicKey ee) \<and>
     (\<forall>h alg data ent sig ent'. signatureAlgorithmFor (certPublicKey ee) h = Some alg \<longrightarrow>
        signer_Sign S key (fst (signInput S (certPublicKey ee) h data)) (snd (signInput S (certPublicKey ee) h data)) ent = Inr (sig, ent') \<longrightarrow>
        CheckSignature X ee alg data sig = Inr ())"

text \<open>Values that are DER, and times within the validity of a certificate.\<close>

definition value_der :: "signing \<Rightarrow> attributeValue \<Rightarrow> bool" where
  "value_der S v \<longleftrightarrow> (\<forall>e. marshalValue S v = Inr e \<longrightarrow> length e < 2 ^ 31 \<longrightarrow> der_items 490 e)"

definition time_ok :: "signing \<Rightarrow> Certificate \<Rightarrow> attributeValue \<Rightarrow> bool" where
  "time_ok S ee v \<longleftrightarrow> (\<forall>e out. marshalValue S v = Inr e \<longrightarrow>
     (case time_Unmarshal S e out of (t, Inr _) \<Rightarrow> NotBefore ee \<le> t \<and> t \<le> NotAfter ee | (_, Inl _) \<Rightarrow> True))"

definition config_ok :: "signing \<Rightarrow> Certificate \<Rightarrow> int \<Rightarrow> SignerInfoConfig \<Rightarrow> bool" where
  "config_ok S ee now config \<longleftrightarrow>
     (\<forall>a \<in> set (ExtraSignedAttributes config). oid_ok (AttributeType a) \<and> value_der S (AttributeValue a) \<and>
        AttributeType a \<noteq> OIDAttributeMessageDigest \<and>
        (AttributeType a = OIDAttributeSigningTime \<longrightarrow> time_ok S ee (AttributeValue a))) \<and>
     (\<forall>a \<in> set (ExtraUnsignedAttributes config). oid_ok (AttributeType a) \<and> value_der S (AttributeValue a)) \<and>
     (SkipSigningTime config \<or> value_der S (ValueTime now) \<and> time_ok S ee (ValueTime now))"

section \<open>Signatures\<close>

lemma getCMS_digest:
  assumes "getCMSSignerAlgorithm key (digestOID h) configured = Inr algorithm"
  shows "\<exists>h'. cmsDigestOID algorithm = digestOID h'"
proof -
  have "cmsDigestOID algorithm = digestOID h \<or> cmsDigestOID algorithm = digestOID SHA512"
    using assms by (auto simp: getCMSSignerAlgorithm_def and_then_Inr_iff split: PrivateKey.splits option.splits)
  then show ?thesis by blast
qed

lemma oidForPublicKey_oid_ok: "oidForPublicKey public d = Inr oid \<Longrightarrow> oid_ok oid"
  by (auto simp: oidForPublicKey_def ml_defs split: PublicKey.splits if_splits)

lemma signInput_other:
  "mlDSAAlgorithmForPublicKey public = None \<Longrightarrow> signatureAlgorithmFor public h = Some alg \<Longrightarrow>
     signInput S public h data = (case public of Ed25519PublicKey _ \<Rightarrow> (data, HashOpts None)
       | _ \<Rightarrow> (hash_Sum S h data, HashOpts (Some h)))"
  by (cases public) (auto simp: ml_defs split: if_splits elim: signatureAlgorithmFor.elims)

lemma cms_sign_verifies:
  assumes pair: "key_pair X S key ee" and alg: "getCMSSignerAlgorithm key (digestOID h) None = Inr algorithm"
    and hash: "getHashForOID (cmsDigestOID algorithm) = Inr hash" and sign: "cms_sign S algorithm key data hash ent = Inr (sig, ent')"
  shows "cmsDigestOID algorithm = digestOID hash" "oid_ok (cmsSignatureOID algorithm)"
    "\<exists>a. getSignatureAlgorithm (algOnly (cmsSignatureOID algorithm)) (algOnly (digestOID hash)) = Inr a \<and>
       CheckSignature X ee a data sig = Inr ()"
proof -
  let ?pub = "certPublicKey ee"
  from pair have pub: "signerPublic key = Some ?pub" by (simp add: key_pair_def)
  then have key: "\<And>k. key \<noteq> DSAPrivateKey k" by auto
  from getCMS_digest [OF alg] hash show digest: "cmsDigestOID algorithm = digestOID hash" by auto
  have oid: "oidForPublicKey ?pub (digestOID hash) = Inr (cmsSignatureOID algorithm)"
    and input: "signatureAlgorithmFor ?pub hash = Some a \<Longrightarrow>
      signer_Sign S key (fst (signInput S ?pub hash data)) (snd (signInput S ?pub hash data)) ent = Inr (sig, ent')" for a
  proof -
    have "oidForPublicKey ?pub (digestOID hash) = Inr (cmsSignatureOID algorithm) \<and>
      (signatureAlgorithmFor ?pub hash = Some a \<longrightarrow>
        signer_Sign S key (fst (signInput S ?pub hash data)) (snd (signInput S ?pub hash data)) ent = Inr (sig, ent'))" for a
    proof (cases "mlDSAAlgorithmForPublicKey ?pub")
      case (Some m)
      then obtain params k where ml: "?pub = MLDSAPublicKey params k"
        by (auto simp: mlDSAAlgorithmForPublicKey_def split: PublicKey.splits)
      from alg key pub Some have "algorithm = \<lparr>cmsDigestOID = OIDDigestAlgorithmSHA512, cmsSignatureOID = mlOID m, cmsMode = cmsSigningModeMLDSA\<rparr>"
        by (auto simp: getCMSSignerAlgorithm_def split: PrivateKey.splits)
      with sign pub Some show ?thesis by (simp add: cms_sign_def ml oidForPublicKey_def)
    next
      case None
      with alg key pub have a: "getOIDForEncryptionAlgorithm key (digestOID h) = Inr (cmsSignatureOID algorithm)"
        "cmsDigestOID algorithm = digestOID h"
        "cmsMode algorithm = (case ?pub of Ed25519PublicKey _ \<Rightarrow> cmsSigningModeEd25519 | _ \<Rightarrow> cmsSigningModePreHashed)"
        by (auto simp: getCMSSignerAlgorithm_def and_then_Inr_iff split: PrivateKey.splits)
      with key pub digest have "oidForPublicKey ?pub (digestOID hash) = Inr (cmsSignatureOID algorithm)"
        by (auto simp: getOIDForEncryptionAlgorithm_def split: PrivateKey.splits)
      moreover have "signer_Sign S key (fst (signInput S ?pub hash data)) (snd (signInput S ?pub hash data)) ent = Inr (sig, ent')"
        if "signatureAlgorithmFor ?pub hash = Some a"
        using sign pub a(3) unfolding signInput_other [OF None that]
        by (cases ?pub) (simp_all add: cms_sign_def)
      ultimately show ?thesis by blast
    qed
    then show "oidForPublicKey ?pub (digestOID hash) = Inr (cmsSignatureOID algorithm)"
      "signatureAlgorithmFor ?pub hash = Some a \<Longrightarrow>
        signer_Sign S key (fst (signInput S ?pub hash data)) (snd (signInput S ?pub hash data)) ent = Inr (sig, ent')" by blast+
  qed
  from oid show "oid_ok (cmsSignatureOID algorithm)" by (rule oidForPublicKey_oid_ok)
  from oidForPublicKey_verifies [OF oid] obtain a where
    a: "getSignatureAlgorithm (algOnly (cmsSignatureOID algorithm)) (algOnly (digestOID hash)) = Inr a"
    "signatureAlgorithmFor ?pub hash = Some a" by blast
  with pair input [OF a(2)] show "\<exists>a. getSignatureAlgorithm (algOnly (cmsSignatureOID algorithm)) (algOnly (digestOID hash)) = Inr a \<and>
      CheckSignature X ee a data sig = Inr ()"
    unfolding key_pair_def by blast
qed

section \<open>Good signers\<close>

definition attrs_ok :: "signing \<Rightarrow> attributes \<Rightarrow> bool" where
  "attrs_ok S attrs \<longleftrightarrow> (\<forall>p \<in> set (pairs attrs). oid_ok (fst p) \<and> value_der S (snd p))"

text \<open>The attributes hold one digest, the one given, and at most one signing time, within the validity.\<close>

definition attrs_cover :: "signing \<Rightarrow> bytes \<Rightarrow> Certificate \<Rightarrow> attributes \<Rightarrow> bool" where
  "attrs_cover S digest ee attrs \<longleftrightarrow>
     (OIDAttributeMessageDigest, ValueOctets digest) \<in> set (pairs attrs) \<and>
     (\<forall>p \<in> set (pairs attrs). fst p = OIDAttributeMessageDigest \<longrightarrow> p = (OIDAttributeMessageDigest, ValueOctets digest)) \<and>
     ((\<forall>p \<in> set (pairs attrs). fst p \<noteq> OIDAttributeSigningTime) \<or>
      (\<exists>v. (OIDAttributeSigningTime, v) \<in> set (pairs attrs) \<and> time_ok S ee v \<and>
         (\<forall>p \<in> set (pairs attrs). fst p = OIDAttributeSigningTime \<longrightarrow> p = (OIDAttributeSigningTime, v))))"

definition signature_ok :: "x509 \<Rightarrow> signing \<Rightarrow> bytes \<Rightarrow> Certificate \<Rightarrow> signerInfo \<Rightarrow> Hash \<Rightarrow> bool" where
  "signature_ok X S data ee si h \<longleftrightarrow> (\<exists>alg covered.
     getSignatureAlgorithm (siDigestEncryptionAlgorithm si) (siDigestAlgorithm si) = Inr alg \<and>
     CheckSignature X ee alg covered (siEncryptedDigest si) = Inr () \<and>
     (if siAuthenticatedAttributes si = [] then covered = data
      else marshalAttributes (siAuthenticatedAttributes si) = Inr covered \<and>
        (\<exists>attrs. ForMarshalling S attrs = Inr (siAuthenticatedAttributes si) \<and> attrs_ok S attrs \<and>
           attrs_cover S (hash_Sum S h data) ee attrs)))"

definition signer_ok :: "x509 \<Rightarrow> signing \<Rightarrow> bytes \<Rightarrow> Certificate \<Rightarrow> signerInfo \<Rightarrow> bool" where
  "signer_ok X S data ee si \<longleftrightarrow> siVersion si = 1 \<and> siIssuerAndSerialNumber si = cert2issuerAndSerial ee \<and>
     name_ok 490 (RawIssuer ee) \<and>
     (\<exists>us. ForMarshalling S us = Inr (siUnauthenticatedAttributes si) \<and> attrs_ok S us) \<and>
     (\<exists>h sigOID. siDigestAlgorithm si = algOnly (digestOID h) \<and> siDigestEncryptionAlgorithm si = algOnly sigOID \<and>
        oid_ok sigOID \<and> signature_ok X S data ee si h)"

lemma ForMarshalling_noAttributes [simp]: "ForMarshalling S noAttributes = Inr []"
  by (simp add: ForMarshalling_def noAttributes_def)

lemma attrs_ok_noAttributes [simp]: "attrs_ok S noAttributes"
  by (simp add: attrs_ok_def)

lemma addAll_pairs:
  "wf_attributes (addAll extra)" "pairs (addAll extra) = map (\<lambda>a. (AttributeType a, AttributeValue a)) extra"
proof -
  have "wf_attributes attrs \<Longrightarrow>
      wf_attributes (fold (\<lambda>a. attributes_Add (AttributeType a) (AttributeValue a)) extra attrs) \<and>
      pairs (fold (\<lambda>a. attributes_Add (AttributeType a) (AttributeValue a)) extra attrs) =
        pairs attrs @ map (\<lambda>a. (AttributeType a, AttributeValue a)) extra" for attrs
    by (induction extra arbitrary: attrs) simp_all
  from this [of noAttributes] show "wf_attributes (addAll extra)"
    "pairs (addAll extra) = map (\<lambda>a. (AttributeType a, AttributeValue a)) extra"
    by (simp_all add: addAll_def)
qed

lemma config_ok_unsigned: "config_ok S ee now config \<Longrightarrow> attrs_ok S (addAll (ExtraUnsignedAttributes config))"
  by (auto simp: attrs_ok_def addAll_pairs config_ok_def)

text \<open>Where a signed attribute comes from.\<close>

lemma signedAttributes_cases:
  assumes "p \<in> set (pairs (signedAttributes now t digest config))"
  obtains "p = (OIDAttributeContentType, ValueOID t)" | "p = (OIDAttributeMessageDigest, ValueOctets digest)"
  | "p = (OIDAttributeSigningTime, ValueTime now)" "\<not> SkipSigningTime config"
  | a where "a \<in> set (ExtraSignedAttributes config)" "p = (AttributeType a, AttributeValue a)"
proof -
  from assms have "p = (OIDAttributeContentType, ValueOID t) \<or> p = (OIDAttributeMessageDigest, ValueOctets digest) \<or>
      p = (OIDAttributeSigningTime, ValueTime now) \<and> \<not> SkipSigningTime config \<or>
      (\<exists>a \<in> set (ExtraSignedAttributes config). p = (AttributeType a, AttributeValue a))"
    unfolding signedAttributes_def Let_def by (elim addExtraSigned_pairs(2) [rotated, THEN disjE]) (auto split: if_splits)
  with that show thesis by blast
qed

lemma value_der_base [simp]: "value_der S (ValueOID oid)" "value_der S (ValueOctets bs)"
  using der_item_marshalOID [of oid _ 489, THEN der_items_single] der_item_marshalOctets [of bs 489, THEN der_items_single]
  by (auto simp: value_der_def)

lemma config_ok_signed:
  assumes "config_ok S ee now config" "oid_ok t"
  shows "attrs_ok S (signedAttributes now t digest config)"
  unfolding attrs_ok_def
proof
  fix p
  assume "p \<in> set (pairs (signedAttributes now t digest config))"
  then show "oid_ok (fst p) \<and> value_der S (snd p)"
    by (cases rule: signedAttributes_cases) (use assms in \<open>auto simp: config_ok_def\<close>)
qed

lemma config_ok_cover:
  assumes "config_ok S ee now config"
  shows "attrs_cover S digest ee (signedAttributes now t digest config)"
proof -
  let ?attrs = "signedAttributes now t digest config"
  have digest: "fst p = OIDAttributeMessageDigest \<longrightarrow> p = (OIDAttributeMessageDigest, ValueOctets digest)" if "p \<in> set (pairs ?attrs)" for p
    using that by (cases rule: signedAttributes_cases) (use assms in \<open>auto simp: config_ok_def\<close>)
  have time: "time_ok S ee (snd p)" if "p \<in> set (pairs ?attrs)" "fst p = OIDAttributeSigningTime" for p
    using that(1) by (cases rule: signedAttributes_cases) (use assms that(2) in \<open>auto simp: config_ok_def\<close>)
  have "(\<forall>p \<in> set (pairs ?attrs). fst p \<noteq> OIDAttributeSigningTime) \<or>
      (\<exists>v. (OIDAttributeSigningTime, v) \<in> set (pairs ?attrs) \<and> time_ok S ee v \<and>
         (\<forall>p \<in> set (pairs ?attrs). fst p = OIDAttributeSigningTime \<longrightarrow> p = (OIDAttributeSigningTime, v)))"
  proof (cases "filter isSigningTime (pairs ?attrs)")
    case Nil
    then show ?thesis by (auto simp: filter_empty_conv isSigningTime_def)
  next
    case (Cons p ps)
    have "p \<in> set (filter isSigningTime (pairs ?attrs))" unfolding Cons by simp
    then have p: "p \<in> set (pairs ?attrs)" "fst p = OIDAttributeSigningTime" by (simp_all add: isSigningTime_def)
    have "ps = []" using arg_cong [OF Cons, of length] signedAttributes_times [of now t digest config] by simp
    obtain v where v: "p = (OIDAttributeSigningTime, v)" using p(2) by (cases p) simp
    have "q = (OIDAttributeSigningTime, v)" if "q \<in> set (pairs ?attrs)" "fst q = OIDAttributeSigningTime" for q
    proof -
      from that have "q \<in> set (filter isSigningTime (pairs ?attrs))" by (simp add: isSigningTime_def)
      then show ?thesis unfolding Cons \<open>ps = []\<close> v by simp
    qed
    moreover have "(OIDAttributeSigningTime, v) \<in> set (pairs ?attrs)" "time_ok S ee v"
      using p(1) time [OF p] unfolding v by simp_all
    ultimately show ?thesis by blast
  qed
  with digest signedAttributes_base(2) [of digest now t config] show ?thesis unfolding attrs_cover_def by blast
qed

section \<open>Reading a signer back\<close>

lemma marshalTagged_short:
  assumes "marshalTaggedAttributes tag attrs = Inr bs" "length bs < 2 ^ 31"
  shows "short_attributes attrs"
proof (cases "attrs = []")
  case False
  with assms(1) obtain ps where ps: "allResults (map marshalAttribute attrs) = Inr ps" "bs = tlv 2 True tag (concat ps)"
    by (auto simp: marshalTaggedAttributes_def)
  note len = length_body [OF assms(2) [unfolded ps(2)]]
  show ?thesis
    unfolding short_attributes_def
  proof (intro ballI allI impI)
    fix a k
    assume a: "a \<in> set attrs" "marshalAttribute a = Inr k"
    then have "k \<in> set ps" using allResults_mapD(1) [OF ps(1)] by (auto intro: rev_image_eqI)
    with len show "length k < 2 ^ 31" by (rule length_concat_part)
  qed
qed (simp add: short_attributes_def)

lemma marshalSignerInfo_parts:
  assumes "marshalSignerInfo si = Inr e" "length e < 2 ^ 31"
  shows "short_attributes (siAuthenticatedAttributes si)" "short_attributes (siUnauthenticatedAttributes si)"
    "length (siEncryptedDigest si) < 2 ^ 31"
proof -
  from assms(1) obtain v i h a s d u where parts: "marshalTaggedAttributes 0 (siAuthenticatedAttributes si) = Inr a"
    "marshalTaggedAttributes 1 (siUnauthenticatedAttributes si) = Inr u" "d = marshalOctets (siEncryptedDigest si)"
    and body: "e = tlv 0 True 16 (v @ i @ h @ a @ s @ d @ u)"
    by (auto simp: marshalSignerInfo_def marshalSequence_def)
  from length_body [OF assms(2) [unfolded body]] have len: "length a < 2 ^ 31" "length u < 2 ^ 31" "length d < 2 ^ 31" by simp_all
  show "short_attributes (siAuthenticatedAttributes si)" by (rule marshalTagged_short [OF parts(1) len(1)])
  show "short_attributes (siUnauthenticatedAttributes si)" by (rule marshalTagged_short [OF parts(2) len(2)])
  show "length (siEncryptedDigest si) < 2 ^ 31" using length_body [OF len(3) [unfolded parts(3) marshalOctets_def]] .
qed

lemma attrs_ok_read:
  assumes "ForMarshalling S attrs = Inr as" "attrs_ok S attrs" "short_attributes as"
  shows "\<forall>a \<in> set as. attr_ok a"
proof (rule ForMarshalling_ok [OF assms(1) _ assms(3)])
  show "\<forall>p \<in> set (pairs attrs). oid_ok (fst p)" using assms(2) unfolding attrs_ok_def by blast
qed

lemma signer_ok_si_ok:
  assumes "signer_ok X S data ee si" "marshalSignerInfo si = Inr e" "length e < 2 ^ 31"
  shows "si_ok si"
proof -
  note short = marshalSignerInfo_parts [OF assms(2,3)]
  from assms(1) obtain us h sigOID where si: "siVersion si = 1" "siIssuerAndSerialNumber si = cert2issuerAndSerial ee"
      "name_ok 490 (RawIssuer ee)" "siDigestAlgorithm si = algOnly (digestOID h)" "siDigestEncryptionAlgorithm si = algOnly sigOID"
      "oid_ok sigOID"
    and us: "ForMarshalling S us = Inr (siUnauthenticatedAttributes si)" "attrs_ok S us"
    and sig: "signature_ok X S data ee si h"
    unfolding signer_ok_def by blast
  have "\<forall>a \<in> set (siUnauthenticatedAttributes si). attr_ok a" by (rule attrs_ok_read [OF us short(2)])
  moreover have "\<forall>a \<in> set (siAuthenticatedAttributes si). attr_ok a"
    using sig attrs_ok_read [OF _ _ short(1)] by (auto simp: signature_ok_def split: if_splits)
  moreover have "oid_ok (digestOID h)" by (cases h) simp_all
  ultimately show ?thesis
    using si(6) iasNorm_cert(2) [of ee] si(3)
    by (simp add: si_ok_def si(1,2,4,5) name_ok_def raw_ok_def algOnly_def)
qed

text \<open>The signer found in the document is authentic and its signing time is fine.\<close>

lemma attrs_cover_read:
  assumes as: "ForMarshalling S attrs = Inr as" and ok: "attrs_ok S attrs" and short: "short_attributes as"
    and cover: "attrs_cover S digest ee attrs"
  shows "unmarshalAttribute (map attrNorm as) OIDAttributeMessageDigest (unmarshalInto parseOctets) [] = (digest, Inr ())"
    "case unmarshalAttribute (map attrNorm as) OIDAttributeSigningTime (time_Unmarshal S) initial of
       (t, Inr _) \<Rightarrow> NotBefore ee \<le> t \<and> t \<le> NotAfter ee | (_, Inl _) \<Rightarrow> True"
proof -
  have oids: "\<forall>p \<in> set (pairs attrs). oid_ok (fst p)" using ok by (simp add: attrs_ok_def)
  from cover have one: "(OIDAttributeMessageDigest, ValueOctets digest) \<in> set (pairs attrs)"
      "\<forall>p \<in> set (pairs attrs). fst p = OIDAttributeMessageDigest \<longrightarrow> p = (OIDAttributeMessageDigest, ValueOctets digest)"
    unfolding attrs_cover_def by blast+
  from ForMarshalling_lookup [OF as oids short one, of "unmarshalInto parseOctets" "[]"] obtain e where
    e: "marshalValue S (ValueOctets digest) = Inr e" "length e < 2 ^ 31"
      "unmarshalAttribute (map attrNorm as) OIDAttributeMessageDigest (unmarshalInto parseOctets) [] = unmarshalInto parseOctets e []"
    by blast
  have "length digest < 2 ^ 31" using e(1,2) length_body [of 0 False 4 digest] by (simp add: marshalOctets_def)
  with octets.dec_enc [of digest "[]"] e
  show "unmarshalAttribute (map attrNorm as) OIDAttributeMessageDigest (unmarshalInto parseOctets) [] = (digest, Inr ())"
    by (auto simp: unmarshalInto_def)
  from cover consider (none) "\<forall>p \<in> set (pairs attrs). fst p \<noteq> OIDAttributeSigningTime"
    | (some) v where "(OIDAttributeSigningTime, v) \<in> set (pairs attrs)" "time_ok S ee v"
      "\<forall>p \<in> set (pairs attrs). fst p = OIDAttributeSigningTime \<longrightarrow> p = (OIDAttributeSigningTime, v)"
    unfolding attrs_cover_def by blast
  then show "case unmarshalAttribute (map attrNorm as) OIDAttributeSigningTime (time_Unmarshal S) initial of
       (t, Inr _) \<Rightarrow> NotBefore ee \<le> t \<and> t \<le> NotAfter ee | (_, Inl _) \<Rightarrow> True"
  proof cases
    case none
    then show ?thesis using ForMarshalling_missing [OF as none, of "time_Unmarshal S" initial] by simp
  next
    case some
    from ForMarshalling_lookup [OF as oids short some(1,3), of "time_Unmarshal S" initial] obtain e where
      e: "marshalValue S v = Inr e"
        "unmarshalAttribute (map attrNorm as) OIDAttributeSigningTime (time_Unmarshal S) initial = time_Unmarshal S e initial"
      by blast
    with some(2) show ?thesis unfolding time_ok_def by simp
  qed
qed

lemma signer_ok_authentic:
  assumes ok: "signer_ok X S data ee si" and e: "marshalSignerInfo si = Inr e" "length e < 2 ^ 31"
    and content: "Content p7 = data" and ee: "ee \<in> set (Certificates p7)"
    and unique: "\<forall>c \<in> set (Certificates p7). same_recipient c ee \<longrightarrow> c = ee"
  shows "authentic X S p7 (siNorm si) ee" "timely S (siNorm si) ee initial"
proof -
  note short = marshalSignerInfo_parts(1) [OF e]
  from ok obtain h sigOID alg covered where si: "siIssuerAndSerialNumber si = cert2issuerAndSerial ee"
      "name_ok 490 (RawIssuer ee)" "siDigestAlgorithm si = algOnly (digestOID h)" "siDigestEncryptionAlgorithm si = algOnly sigOID"
    and alg: "getSignatureAlgorithm (siDigestEncryptionAlgorithm si) (siDigestAlgorithm si) = Inr alg"
      "CheckSignature X ee alg covered (siEncryptedDigest si) = Inr ()"
    and what: "if siAuthenticatedAttributes si = [] then covered = data
      else marshalAttributes (siAuthenticatedAttributes si) = Inr covered \<and>
        (\<exists>attrs. ForMarshalling S attrs = Inr (siAuthenticatedAttributes si) \<and> attrs_ok S attrs \<and>
           attrs_cover S (hash_Sum S h data) ee attrs)"
    unfolding signer_ok_def signature_ok_def by blast
  have match: "isCertMatchForIssuerAndSerial c (siIssuerAndSerialNumber (siNorm si)) \<longleftrightarrow> same_recipient c ee" for c
    using match_iasNorm [of ee c] si(1,2) by (simp add: siNorm_def name_ok_def same_recipient_def)
  have cert: "getCertFromCertsByIssuerAndSerial (Certificates p7) (siIssuerAndSerialNumber (siNorm si)) = Some ee"
  proof (cases "getCertFromCertsByIssuerAndSerial (Certificates p7) (siIssuerAndSerialNumber (siNorm si))")
    case None
    with ee show ?thesis by (auto simp: getCert_None match same_recipient_def)
  next
    case (Some c)
    from getCert_Some [OF Some] unique show ?thesis by (simp add: Some match)
  qed
  have norm: "getSignatureAlgorithm (siDigestEncryptionAlgorithm (siNorm si)) (siDigestAlgorithm (siNorm si)) = Inr alg"
    "siEncryptedDigest (siNorm si) = siEncryptedDigest si" "algOID (siDigestAlgorithm (siNorm si)) = digestOID h"
    "siAuthenticatedAttributes (siNorm si) = map attrNorm (siAuthenticatedAttributes si)"
    using alg(1) by (simp_all add: siNorm_def si(3,4))
  have "authentic X S p7 (siNorm si) ee \<and> timely S (siNorm si) ee initial"
  proof (cases "siAuthenticatedAttributes si = []")
    case True
    with cert norm alg(2) what content show ?thesis by (auto simp: authentic_def timely_def signingTime_def)
  next
    case False
    with what obtain attrs where marshal: "marshalAttributes (siAuthenticatedAttributes si) = Inr covered"
      and as: "ForMarshalling S attrs = Inr (siAuthenticatedAttributes si)" "attrs_ok S attrs"
        "attrs_cover S (hash_Sum S h data) ee attrs" by auto
    have "marshalAttributes (map attrNorm (siAuthenticatedAttributes si)) = Inr covered"
      using marshalAttributes_attrNorm [OF attrs_ok_read [OF as(1,2) short]] marshal by simp
    moreover note attrs_cover_read(1) [OF as(1,2) short as(3)] attrs_cover_read(2) [OF as(1,2) short as(3), of initial]
    ultimately show ?thesis using cert norm alg(2) content False
      by (auto simp: authentic_def timely_def signingTime_def)
  qed
  then show "authentic X S p7 (siNorm si) ee" "timely S (siNorm si) ee initial" by blast+
qed

section \<open>What is written is DER\<close>

lemma der_items_oid: "Inr p = marshalOID oid \<Longrightarrow> length p < 2147483648 \<Longrightarrow> der_items (Suc k) p"
  by (rule der_items_single, rule der_item_marshalOID) simp_all

lemma der_item_attribute:
  assumes "marshalAttribute a = Inr e" "length e < 2 ^ 31" "der_item (Suc k) (marshalRaw (attrValue a))"
  shows "der_item (Suc (Suc k)) e"
  using assms(1) [unfolded marshalAttribute_def] assms(2)
  by (rule der_item_marshalSequence) (auto intro: der_items_single assms(3) der_items_oid)

lemma der_items_attributes:
  assumes as: "ForMarshalling S attrs = Inr as" "attrs_ok S attrs"
    and bs: "marshalTaggedAttributes tag as = Inr bs" "length bs < 2 ^ 31" "tag < 31"
  shows "der_items (Suc (Suc (Suc 490))) bs"
proof (cases "as = []")
  case True
  with bs(1) show ?thesis by (simp add: marshalTaggedAttributes_def der_items_Nil)
next
  case False
  with bs(1) obtain ps where ps: "allResults (map marshalAttribute as) = Inr ps" "bs = tlv 2 True tag (concat ps)"
    by (auto simp: marshalTaggedAttributes_def)
  note len = length_body [OF bs(2) [unfolded ps(2)]]
  have "der_item (Suc (Suc 490)) p" if p: "p \<in> set ps" for p
  proof -
    from p allResults_mapD [OF ps(1)] obtain a where a: "a \<in> set as" "marshalAttribute a = Inr p" by auto
    have small: "length p < 2 ^ 31" by (rule length_concat_part [OF len p])
    from ForMarshalling_encodes(1) [OF as(1)] a(1) obtain q where q: "q \<in> set (pairs attrs)" "encodesTo S q a" by blast
    with as(2) have ok: "oid_ok (fst q)" "value_der S (snd q)" unfolding attrs_ok_def by blast+
    from encodesTo_ok(2) [OF q(2) ok(1) a(2) small] obtain e where
      e: "marshalValue S (snd q) = Inr e" "length e < 2 ^ 31" by blast
    with ok(2) have "der_items 490 e" unfolding value_der_def by blast
    with e(2) have "der_item (Suc 490) (tlv 0 True 17 e)" by (intro der_item_constructed) simp_all
    moreover have "marshalRaw (attrValue a) = tlv 0 True 17 e" using q(2) e(1) by (auto simp: encodesTo_def)
    ultimately show ?thesis by (intro der_item_attribute [OF a(2) small]) simp
  qed
  then have "der_items (Suc (Suc 490)) (concat ps)" by (intro der_items_concat) (auto intro: der_items_single)
  with len bs(3) show ?thesis unfolding ps(2) by (intro der_items_single [OF der_item_constructed]) simp_all
qed

lemma der_item_signerInfo:
  assumes ok: "signer_ok X S data ee si" and e: "marshalSignerInfo si = Inr e" "length e < 2 ^ 31"
  shows "der_item (Suc (Suc (Suc (Suc 490)))) e"
proof -
  from ok obtain us h sigOID where si: "siIssuerAndSerialNumber si = cert2issuerAndSerial ee"
      "name_ok 490 (RawIssuer ee)" "siDigestAlgorithm si = algOnly (digestOID h)" "siDigestEncryptionAlgorithm si = algOnly sigOID"
    and us: "ForMarshalling S us = Inr (siUnauthenticatedAttributes si)" "attrs_ok S us"
    and sig: "signature_ok X S data ee si h"
    unfolding signer_ok_def by blast
  have "marshalRaw (IssuerName (siIssuerAndSerialNumber si)) = RawIssuer ee"
    using si(1,2) iasNorm_cert(2) [of ee] by (simp add: name_ok_def)
  with si(2) have issuer: "der_item (Suc 490) (marshalRaw (IssuerName (siIssuerAndSerialNumber si)))" by (simp add: name_ok_def)
  have ias: "der_items (Suc (Suc (Suc 490))) p" if "marshalIAS (siIssuerAndSerialNumber si) = Inr p" "length p < 2 ^ 31" for p
    by (rule der_items_single, rule der_item_Suc, rule der_item_marshalIAS [OF that issuer])
  have algs: "der_items (Suc (Suc (Suc 490))) p" if "marshalAlg (algOnly oid) = Inr p" "length p < 2 ^ 31" for p oid
    by (rule der_items_single, rule der_item_alg [OF that]) (simp add: algOnly_def)
  have auth: "der_items (Suc (Suc (Suc 490))) p"
    if p: "marshalTaggedAttributes 0 (siAuthenticatedAttributes si) = Inr p" "length p < 2 ^ 31" for p
  proof (cases "siAuthenticatedAttributes si = []")
    case True
    with p(1) show ?thesis by (simp add: marshalTaggedAttributes_def der_items_Nil)
  next
    case False
    with sig obtain attrs where "ForMarshalling S attrs = Inr (siAuthenticatedAttributes si)" "attrs_ok S attrs"
      unfolding signature_ok_def by auto
    from der_items_attributes [OF this p] show ?thesis by simp
  qed
  have unauth: "der_items (Suc (Suc (Suc 490))) p"
    if p: "marshalTaggedAttributes 1 (siUnauthenticatedAttributes si) = Inr p" "length p < 2 ^ 31" for p
    using der_items_attributes [OF us p] by simp
  show ?thesis
    using e(1) [unfolded marshalSignerInfo_def] e(2)
  proof (rule der_item_marshalSequence)
    fix p :: bytes
    assume len: "length p < 2 ^ 31"
    assume "Inr p \<in> set [Inr (marshalInt (siVersion si)), marshalIAS (siIssuerAndSerialNumber si), marshalAlg (siDigestAlgorithm si),
      marshalTaggedAttributes 0 (siAuthenticatedAttributes si), marshalAlg (siDigestEncryptionAlgorithm si),
      Inr (marshalOctets (siEncryptedDigest si)), marshalTaggedAttributes 1 (siUnauthenticatedAttributes si)]"
    then consider "p = marshalInt (siVersion si)" | "marshalIAS (siIssuerAndSerialNumber si) = Inr p"
      | oid where "marshalAlg (algOnly oid) = Inr p" | "marshalTaggedAttributes 0 (siAuthenticatedAttributes si) = Inr p"
      | "p = marshalOctets (siEncryptedDigest si)" | "marshalTaggedAttributes 1 (siUnauthenticatedAttributes si) = Inr p"
      using si(3,4) by auto
    then show "der_items (Suc (Suc (Suc 490))) p"
    proof cases
      case 1
      show ?thesis using len unfolding 1 by (rule der_items_single [OF der_item_marshalInt])
    next
      case 5
      show ?thesis using len unfolding 5 by (rule der_items_single [OF der_item_marshalOctets])
    qed (use len ias algs auth unauth in blast)+
  qed
qed

end
