(* ===== verification/SignedSessions.thy ===== *)
theory SignedSessions
  imports SignedRoundtrip
begin

text \<open>
  Documents as a whole: \<open>Finish\<close> and \<open>DegenerateCertificate\<close> read back by \<open>Parse\<close>, and the sessions of
  signing operations whose documents verify.
\<close>

section \<open>Reading a document back\<close>

definition content_ok :: "bytes \<Rightarrow> contentInfo \<Rightarrow> bytes \<Rightarrow> bool" where
  "content_ok data ci content \<longleftrightarrow> oid_ok (ciContentType ci) \<and>
     (ciContent ci = rawOf 2 0 True (marshalOctets data) \<and> content = data \<or> ciContent ci = rawZero \<and> content = [])"

text \<open>Certificates the library reads back from their encodings.\<close>

definition pool_ok :: "x509 \<Rightarrow> Certificate list \<Rightarrow> bool" where
  "pool_ok X cs \<longleftrightarrow> (\<forall>c \<in> set cs. der_items 490 (certRaw c)) \<and>
     x509_ParseCertificates X (concat (map certRaw cs)) = Inr cs"

lemma contentInfo_length:
  assumes "marshalContentInfo ci = Inr e" "length e < 2 ^ 31" "ciContent ci = rawOf 2 0 True body" "body \<noteq> []"
  shows "length body < 2 ^ 31"
proof -
  from assms(1,3,4) obtain t where "e = tlv 0 True 16 (t @ tlv 2 True 0 body)"
    by (auto simp: marshalContentInfo_def marshalSequence_def marshalOptionalRaw_def)
  from length_body [OF assms(2) [unfolded this]] have "length (tlv 2 True 0 body) < 2 ^ 31" by simp
  then show ?thesis by (rule length_body)
qed

lemma marshalOctets_nonempty [simp]: "marshalOctets bs \<noteq> []"
  by (simp add: marshalOctets_def)

lemma content_ok_read:
  assumes "content_ok data ci content" "marshalContentInfo ci = Inr e" "length e < 2 ^ 31"
  shows "contentInfo_ok ci" "signedContent (rvBytes (ciContent (contentInfoNorm ci))) = Inr content"
    "ciContent ci = rawZero \<or> der_item (Suc (Suc k)) (marshalRaw (ciContent ci))"
proof -
  show "contentInfo_ok ci" using assms(1) by (auto simp: content_ok_def contentInfo_ok_def)
  have "signedContent (rvBytes (ciContent (contentInfoNorm ci))) = Inr content \<and>
    (ciContent ci = rawZero \<or> der_item (Suc (Suc k)) (marshalRaw (ciContent ci)))"
  proof (cases "ciContent ci = rawZero")
    case True
    with assms(1) show ?thesis
      by (auto simp: content_ok_def contentInfoNorm_def rawNorm_def signedContent_def rawZero_def rawOf_def)
  next
    case False
    with assms(1) have ci: "ciContent ci = rawOf 2 0 True (marshalOctets data)" "content = data" by (auto simp: content_ok_def)
    from contentInfo_length [OF assms(2,3) ci(1)] have len: "length (marshalOctets data) < 2 ^ 31" by simp
    note small = length_body [OF len [unfolded marshalOctets_def]]
    have norm: "rvBytes (ciContent (contentInfoNorm ci)) = marshalOctets data"
      using len by (simp add: contentInfoNorm_def rawNorm_def rawElement_def element_tlv ci(1))
    have "parseRaw None (marshalOctets data) = Inr (rawElement (marshalOctets data), [])"
      using parseRaw_element [of "marshalOctets data" None "[]"] small by (simp add: marshalOctets_def element_tlv)
    then have "signedContent (marshalOctets data) = Inr data"
      using small by (simp add: signedContent_def rawElement_def marshalOctets_def element_tlv)
    moreover have "der_item (Suc (Suc k)) (marshalRaw (ciContent ci))"
      using len unfolding ci(1) marshal_rawOf
      by (intro der_item_constructed der_items_single [OF der_item_marshalOctets]) simp_all
    ultimately show ?thesis by (simp add: norm ci(2))
  qed
  then show "signedContent (rvBytes (ciContent (contentInfoNorm ci))) = Inr content"
    "ciContent ci = rawZero \<or> der_item (Suc (Suc k)) (marshalRaw (ciContent ci))" by blast+
qed

lemma marshalSetOf_short:
  assumes "marshalSetOf rs = Inr bs" "length bs < 2 ^ 31" "Inr p \<in> set rs"
  shows "length p < 2 ^ 31"
proof -
  from assms(1) obtain ps where ps: "allResults rs = Inr ps" "bs = tlv 0 True 17 (concat (sort ps))"
    by (auto simp: marshalSetOf_def setBody_def)
  note len = length_body [OF assms(2) [unfolded ps(2)]]
  from assms(3) ps(1) have "p \<in> set (sort ps)" by (auto simp: allResults_Inr_iff)
  then show ?thesis by (rule length_concat_part [OF len])
qed

lemma der_item_marshalSetOf:
  assumes "marshalSetOf rs = Inr bs" "length bs < 2 ^ 31"
    and "\<And>p. Inr p \<in> set rs \<Longrightarrow> length p < 2 ^ 31 \<Longrightarrow> der_item k p"
  shows "der_item (Suc k) bs"
proof -
  from assms(1) obtain ps where ps: "rs = map Inr ps" "bs = tlv 0 True 17 (concat (sort ps))"
    by (auto simp: marshalSetOf_def setBody_def allResults_Inr_iff)
  have "der_item k p" if "p \<in> set ps" for p
  proof -
    from that have p: "Inr p \<in> set rs" by (simp add: ps(1) image_iff)
    show ?thesis by (rule assms(3) [OF p marshalSetOf_short [OF assms(1,2) p]])
  qed
  then have "der_items k (concat (sort ps))" by (intro der_items_concat) (auto intro: der_items_single)
  with length_body [OF assms(2) [unfolded ps(2)]] show ?thesis unfolding ps(2) by (intro der_item_constructed) simp_all
qed

lemma rawCertificates_Parse_tlv:
  assumes "length raw < 2 ^ 31"
  shows "rawCertificates_Parse X (tlv 2 True 0 raw) = x509_ParseCertificates X raw"
proof -
  have "parseRaw None (tlv 2 True 0 raw) = Inr (rawElement (tlv 2 True 0 raw), [])"
    using parseRaw_element [of "tlv 2 True 0 raw" None "[]"] assms by (simp add: element_tlv)
  with assms show ?thesis by (simp add: rawCertificates_Parse_def rawElement_def element_tlv)
qed

text \<open>A \<open>signedData\<close> the package is about to write: certificates \<open>cs\<close>, given as \<open>raw\<close>, and good signers.\<close>

definition written_ok :: "x509 \<Rightarrow> signing \<Rightarrow> bytes \<Rightarrow> bytes \<Rightarrow> Certificate list \<Rightarrow> bytes \<Rightarrow> signedData \<Rightarrow> bool" where
  "written_ok X S data raw cs content doc \<longleftrightarrow> sdVersion doc = 1 \<and>
     (\<forall>a \<in> set (sdDigestAlgorithmIdentifiers doc). \<exists>h. a = algOnly (digestOID h)) \<and>
     content_ok data (sdContentInfo doc) content \<and>
     sdCertificates doc = marshalCertificateBytes raw \<and> der_items 490 raw \<and> x509_ParseCertificates X raw = Inr cs \<and>
     (sdCRLs doc = None \<or> sdCRLs doc = Some []) \<and>
     (\<forall>si \<in> set (sdSignerInfos doc). \<exists>ee. signer_ok X S data ee si)"

lemma marshalSD_parts:
  assumes "marshalSD X doc = Inr inner" "length inner < 2 ^ 31"
  obtains a ci c s where "marshalSetOf (map marshalAlg (sdDigestAlgorithmIdentifiers doc)) = Inr a" "length a < 2 ^ 31"
    "marshalContentInfo (sdContentInfo doc) = Inr ci" "length ci < 2 ^ 31" "marshalCRLs X (sdCRLs doc) = Inr c" "length c < 2 ^ 31"
    "marshalSetOf (map marshalSignerInfo (sdSignerInfos doc)) = Inr s" "length s < 2 ^ 31"
    "length (marshalRawCertificates (sdCertificates doc)) < 2 ^ 31"
    "inner = tlv 0 True 16 (marshalInt (sdVersion doc) @ a @ ci @ marshalRawCertificates (sdCertificates doc) @ c @ s)"
proof -
  from assms(1) obtain a ci c s where parts: "marshalSetOf (map marshalAlg (sdDigestAlgorithmIdentifiers doc)) = Inr a"
    "marshalContentInfo (sdContentInfo doc) = Inr ci" "marshalCRLs X (sdCRLs doc) = Inr c"
    "marshalSetOf (map marshalSignerInfo (sdSignerInfos doc)) = Inr s"
    "inner = tlv 0 True 16 (marshalInt (sdVersion doc) @ a @ ci @ marshalRawCertificates (sdCertificates doc) @ c @ s)"
    by (auto simp: marshalSD_def marshalSequence_def)
  from length_body [OF assms(2) [unfolded parts(5)]]
  have "length a < 2 ^ 31" "length ci < 2 ^ 31" "length c < 2 ^ 31" "length s < 2 ^ 31"
    "length (marshalRawCertificates (sdCertificates doc)) < 2 ^ 31" by simp_all
  with parts that show thesis by blast
qed

lemma marshalRawCertificates_bytes:
  assumes "length (marshalRawCertificates (marshalCertificateBytes raw)) < 2 ^ 31"
  shows "length raw < 2 ^ 31" "marshalRawCertificates (marshalCertificateBytes raw) = tlv 2 True 0 raw"
proof -
  let ?b = "marshalCertificateBytes raw"
  have b: "?b = tlv 2 True 0 raw" "tlv 2 True 0 raw \<noteq> []" by (simp_all add: marshalCertificateBytes_def)
  then have m: "marshalRawCertificates ?b = tlv 2 True 0 (stripTagAndLength (tlv 2 True 0 raw))"
    by (simp add: marshalRawCertificates_def)
  note strip = length_body [OF assms [unfolded m]]
  show len: "length raw < 2 ^ 31"
  proof (cases "length raw < 128 \<or> (\<exists>e. parseTagAndLength (tlv 2 True 0 raw) = Inl e)")
    case True
    with strip length_body [of 2 True 0 raw "2 ^ 31"] show ?thesis by (auto simp: stripTagAndLength_def)
  next
    case False
    then obtain h rest where h: "parseTagAndLength (tlv 2 True 0 raw) = Inr (h, rest)" by (cases "parseTagAndLength (tlv 2 True 0 raw)") auto
    from parse_tlv_rest(1) [OF this] False strip show ?thesis by (simp add: stripTagAndLength_def h)
  qed
  then have "certs_ok ?b" using b(1) by (auto simp: certs_ok_def)
  then show "marshalRawCertificates ?b = tlv 2 True 0 raw" using marshal_certs b(1) by simp
qed

lemma written_signers:
  assumes ok: "written_ok X S data raw cs content doc" and m: "marshalSetOf (map marshalSignerInfo (sdSignerInfos doc)) = Inr s" "length s < 2 ^ 31"
  shows "\<forall>si \<in> set (sdSignerInfos doc). si_ok si \<and> (\<exists>e. marshalSignerInfo si = Inr e \<and> length e < 2 ^ 31)"
    "der_item (Suc (Suc (Suc (Suc (Suc 490))))) s"
proof -
  from ok have good: "\<exists>ee. signer_ok X S data ee si" if "si \<in> set (sdSignerInfos doc)" for si
    using that unfolding written_ok_def by blast
  have der: "der_item (Suc (Suc (Suc (Suc 490)))) p" if "Inr p \<in> set (map marshalSignerInfo (sdSignerInfos doc))" "length p < 2 ^ 31" for p
  proof -
    from that(1) obtain si where si: "si \<in> set (sdSignerInfos doc)" "marshalSignerInfo si = Inr p" by auto
    from good [OF si(1)] obtain ee where "signer_ok X S data ee si" by blast
    then show ?thesis by (rule der_item_signerInfo [OF _ si(2) that(2)])
  qed
  show "der_item (Suc (Suc (Suc (Suc (Suc 490))))) s" by (rule der_item_marshalSetOf [OF m der])
  show "\<forall>si \<in> set (sdSignerInfos doc). si_ok si \<and> (\<exists>e. marshalSignerInfo si = Inr e \<and> length e < 2 ^ 31)"
  proof
    fix si
    assume si: "si \<in> set (sdSignerInfos doc)"
    from m(1) have "\<forall>si \<in> set (sdSignerInfos doc). \<exists>e. marshalSignerInfo si = Inr e"
      by (auto simp: marshalSetOf_def setBody_def allResults_map)
    with si obtain e where e: "marshalSignerInfo si = Inr e" by blast
    with si have "Inr e \<in> set (map marshalSignerInfo (sdSignerInfos doc))" by (auto intro: rev_image_eqI)
    from marshalSetOf_short [OF m this] have len: "length e < 2 ^ 31" .
    from good [OF si] obtain ee where "signer_ok X S data ee si" by blast
    from signer_ok_si_ok [OF this e len] e len show "si_ok si \<and> (\<exists>e. marshalSignerInfo si = Inr e \<and> length e < 2 ^ 31)" by blast
  qed
qed

lemma written_parsed:
  assumes ok: "written_ok X S data raw cs content doc"
    and wrap: "and_then (marshalSD X doc) (wrapContent OIDSignedData) = Inr bs" "length bs < 2 ^ 31"
  shows "Parse X bs = Inr \<lparr>Content = content, Certificates = cs, CRLs = sdCRLs doc,
      Signers = map siNorm (sort_key (projr \<circ> marshalSignerInfo) (sdSignerInfos doc)), p7raw = RawSignedData (sdNorm doc)\<rparr>"
    and "\<forall>si \<in> set (sdSignerInfos doc). \<exists>e. marshalSignerInfo si = Inr e \<and> length e < 2 ^ 31"
proof -
  from wrap(1) obtain inner where inner: "marshalSD X doc = Inr inner" "wrapContent OIDSignedData inner = Inr bs"
    by (auto simp: and_then_Inr_iff)
  note small = wrapContent_body [OF inner(2) wrap(2)]
  let ?r = "marshalRawCertificates (sdCertificates doc)"
  obtain a ci c s where a: "marshalSetOf (map marshalAlg (sdDigestAlgorithmIdentifiers doc)) = Inr a" "length a < 2 ^ 31"
    and ci: "marshalContentInfo (sdContentInfo doc) = Inr ci" "length ci < 2 ^ 31"
    and c: "marshalCRLs X (sdCRLs doc) = Inr c" "length c < 2 ^ 31"
    and s: "marshalSetOf (map marshalSignerInfo (sdSignerInfos doc)) = Inr s" "length s < 2 ^ 31"
    and r: "length ?r < 2 ^ 31"
    and body: "inner = tlv 0 True 16 (marshalInt (sdVersion doc) @ a @ ci @ ?r @ c @ s)"
    by (rule marshalSD_parts [OF inner(1) small])
  from ok have doc: "sdVersion doc = 1" "sdCertificates doc = marshalCertificateBytes raw" "der_items 490 raw"
      "x509_ParseCertificates X raw = Inr cs" "sdCRLs doc = None \<or> sdCRLs doc = Some []"
    and content: "content_ok data (sdContentInfo doc) content"
    and algs: "\<forall>a \<in> set (sdDigestAlgorithmIdentifiers doc). \<exists>h. a = algOnly (digestOID h)"
    unfolding written_ok_def by simp_all
  note cert = marshalRawCertificates_bytes [OF r [unfolded doc(2)]]
  have certs: "sdCertificates doc = tlv 2 True 0 raw" by (simp add: doc(2) marshalCertificateBytes_def)
  note signers = written_signers [OF ok s]
  show "\<forall>si \<in> set (sdSignerInfos doc). \<exists>e. marshalSignerInfo si = Inr e \<and> length e < 2 ^ 31" using signers(1) by blast
  \<comment> \<open>what is written is read back\<close>
  have digest_ok: "oid_ok (digestOID h)" for h by (cases h) simp_all
  have "\<forall>a \<in> set (sdDigestAlgorithmIdentifiers doc). oid_ok (algOID a) \<and> raw_ok (algParameters a)"
  proof
    fix a
    assume "a \<in> set (sdDigestAlgorithmIdentifiers doc)"
    with algs obtain h where "a = algOnly (digestOID h)" by blast
    then show "oid_ok (algOID a) \<and> raw_ok (algParameters a)" using digest_ok by (simp add: raw_ok_def algOnly_def)
  qed
  moreover have "certs_ok (sdCertificates doc)" using cert(1) by (auto simp: certs_ok_def certs)
  moreover have "crls_ok X (sdCRLs doc)" using doc(5) by (auto simp: crls_ok_def)
  ultimately have "sd_ok X doc"
    using signers(1) content_ok_read(1) [OF content ci] by (simp add: sd_ok_def doc(1))
  from sd_dec_enc [OF this inner(1) small, of "[]"]
  have read: "parseSD X inner = Inr (sdNorm doc, [])" by simp
  have "rawCertificates_Parse X (sdCertificates (sdNorm doc)) = Inr cs"
    using rawCertificates_Parse_tlv [OF cert(1)] doc(4) by (simp add: sdNorm_def certs)
  moreover have "signedContent (rvBytes (ciContent (sdContentInfo (sdNorm doc)))) = Inr content"
    using content_ok_read(2) [OF content ci] by (simp add: sdNorm_def)
  ultimately have parsed: "parseSignedData X inner = Inr \<lparr>Content = content, Certificates = cs, CRLs = sdCRLs doc,
      Signers = map siNorm (sort_key (projr \<circ> marshalSignerInfo) (sdSignerInfos doc)), p7raw = RawSignedData (sdNorm doc)\<rparr>"
    using read by (simp add: parseSignedData_def) (simp add: sdNorm_def)
  \<comment> \<open>it is DER\<close>
  have "der_items 496 inner"
  proof (rule der_items_single, unfold body, rule der_item_mono [OF der_item_sequence])
    show "length (tlv 0 True 16 (marshalInt (sdVersion doc) @ a @ ci @ ?r @ c @ s)) < 2 ^ 31" using small unfolding body .
    have "length (marshalInt (sdVersion doc)) < 2 ^ 31" using length_body [OF small [unfolded body]] by simp
    then have "der_items 495 (marshalInt (sdVersion doc))"
      using der_items_single [OF der_item_marshalInt [of "sdVersion doc" 494]] by simp
    moreover have "der_item (Suc (Suc (Suc 490))) a"
    proof (rule der_item_marshalSetOf [OF a])
      fix p :: bytes
      assume "Inr p \<in> set (map marshalAlg (sdDigestAlgorithmIdentifiers doc))" "length p < 2 ^ 31"
      with algs obtain h where "marshalAlg (algOnly (digestOID h)) = Inr p" by auto
      then show "der_item (Suc (Suc 490)) p" using \<open>length p < 2 ^ 31\<close> by (rule der_item_alg) (simp add: algOnly_def)
    qed
    then have "der_items 495 a" by (intro der_items_single) (erule der_item_mono, simp)
    moreover have "der_item (Suc (Suc 490)) ci"
      by (rule der_item_contentInfo [OF ci]) (use content_ok_read(3) [OF content ci, of 489] in simp)
    then have "der_items 495 ci" by (intro der_items_single) (erule der_item_mono, simp)
    moreover have "der_item (Suc 490) (tlv 2 True 0 raw)" using cert(1) doc(3) by (intro der_item_constructed) simp_all
    then have "der_items 495 ?r" unfolding doc(2) cert(2) by (intro der_items_single) (erule der_item_mono, simp)
    moreover have "c = [] \<or> c = tlv 2 True 1 []" using doc(5) c(1) by (auto simp: marshalCRLs_def)
    then have "der_items 495 c"
      using der_items_single [OF der_item_constructed [of 2 1 "[]" 494]] der_items_Nil by auto
    moreover have "der_items 495 s" using der_items_single [OF signers(2)] by simp
    ultimately show "der_items 495 (marshalInt (sdVersion doc) @ a @ ci @ ?r @ c @ s)" by (intro der_items_append)
  qed simp
  then have "der_items 498 inner" by (rule der_items_mono) simp
  moreover have "inner \<noteq> []" by (simp add: body)
  moreover have "oid_ok OIDSignedData" by simp
  ultimately show "Parse X bs = Inr \<lparr>Content = content, Certificates = cs, CRLs = sdCRLs doc,
      Signers = map siNorm (sort_key (projr \<circ> marshalSignerInfo) (sdSignerInfos doc)), p7raw = RawSignedData (sdNorm doc)\<rparr>"
    using Parse_wrapped [OF inner(2) wrap(2), of X] parsed by simp
qed

section \<open>Sessions\<close>

text \<open>
  A session: operations on a new \<open>SignedData\<close>, with the certificates of the signers that were added. Digest
  algorithms are the four the package supports; a signer has a key that belongs to its certificate,
  and its issuer is named by the first parent if there is one. Operations may fail in between.
\<close>

inductive session :: "x509 \<Rightarrow> signing \<Rightarrow> bytes \<Rightarrow> SignedData \<Rightarrow> Certificate list \<Rightarrow> bool" for X S data where
  start: "session X S data (NewSignedData data) []"
| digest: "session X S data st ees \<Longrightarrow> session X S data (SetDigestAlgorithm (digestOID h) st) ees"
| certificate: "session X S data st ees \<Longrightarrow> session X S data (AddCertificate cert st) ees"
| content_type: "session X S data st ees \<Longrightarrow> oid_ok t \<Longrightarrow> session X S data (SetContentType t st) ees"
| no_unauthenticated: "session X S data st ees \<Longrightarrow> session X S data (RemoveUnauthenticatedAttributes st) ees"
| signer: "session X S data st ees \<Longrightarrow> AddSignerChain X S now ee key parents config st ent = (st', Inr ent') \<Longrightarrow>
    key_pair X S key ee \<Longrightarrow> name_ok 490 (RawIssuer ee) \<Longrightarrow> (\<forall>parent \<in> set (take 1 parents). RawSubject parent = RawIssuer ee) \<Longrightarrow>
    config_ok S ee now config \<Longrightarrow> session X S data st' (ees @ [ee])"
| signer_failed: "session X S data st ees \<Longrightarrow> AddSignerChain X S now ee key parents config st ent = (st', Inl e) \<Longrightarrow>
    session X S data st' ees"
| plain_signer: "session X S data st ees \<Longrightarrow> SignWithoutAttr S ee key config st ent = (st', Inr ent') \<Longrightarrow>
    key_pair X S key ee \<Longrightarrow> name_ok 490 (RawIssuer ee) \<Longrightarrow> session X S data st' (ees @ [ee])"
| plain_signer_failed: "session X S data st ees \<Longrightarrow> SignWithoutAttr S ee key config st ent = (st', Inl e) \<Longrightarrow>
    session X S data st' ees"

definition doc_ok :: "x509 \<Rightarrow> signing \<Rightarrow> bytes \<Rightarrow> SignedData \<Rightarrow> Certificate list \<Rightarrow> bool" where
  "doc_ok X S data st ees \<longleftrightarrow> sdData st = data \<and> encryptionOid st = None \<and> (\<exists>h. digestOid st = digestOID h) \<and>
     sdVersion (sd st) = 1 \<and> sdCRLs (sd st) = None \<and> content_ok data (sdContentInfo (sd st)) data \<and>
     (\<forall>a \<in> set (sdDigestAlgorithmIdentifiers (sd st)). \<exists>h. a = algOnly (digestOID h)) \<and>
     list_all2 (signer_ok X S data) ees (sdSignerInfos (sd st))"

lemma doc_ok_digest:
  assumes "doc_ok X S data st ees" "getCMSSignerAlgorithm key (digestOid st) configured = Inr algorithm"
  shows "doc_ok X S data (addDigestAlgorithm (cmsDigestOID algorithm) st\<lparr>messageDigest := m\<rparr>) ees"
proof -
  from assms obtain h where "getCMSSignerAlgorithm key (digestOID h) configured = Inr algorithm" by (auto simp: doc_ok_def)
  from getCMS_digest [OF this] assms(1) show ?thesis by (auto simp: doc_ok_def)
qed

lemma doc_ok_signer:
  "doc_ok X S data st ees \<Longrightarrow> signer_ok X S data ee si \<Longrightarrow> doc_ok X S data (addSignerInfo si cs st) (ees @ [ee])"
  by (simp add: doc_ok_def list_all2_appendI)

lemma no_attributes_ok: "\<exists>us. ForMarshalling S us = Inr [] \<and> attrs_ok S us"
  by (intro exI [of _ noAttributes]) simp

lemma signature_ok_unauthenticated [simp]:
  "signature_ok X S data ee (si\<lparr>siUnauthenticatedAttributes := us\<rparr>) h = signature_ok X S data ee si h"
  by (simp add: signature_ok_def)

text \<open>A signature made with the right key over what it has to cover is a good signer.\<close>

lemma chain_signer_ok:
  assumes doc: "doc_ok X S data st ees" and alg: "getCMSSignerAlgorithm key (digestOid st) None = Inr algorithm"
    and hash: "getHashForOID (cmsDigestOID algorithm) = Inr hash"
    and info: "chainSignerInfo S now (addDigestAlgorithm (cmsDigestOID algorithm) st\<lparr>messageDigest := hash_Sum S hash (sdData st)\<rparr>)
         algorithm hash (cert2issuerAndSerial ee) key config ent = Inr (si, ent')"
    and pair: "key_pair X S key ee" and name: "name_ok 490 (RawIssuer ee)" and config: "config_ok S ee now config"
  shows "signer_ok X S data ee si"
proof -
  let ?st = "addDigestAlgorithm (cmsDigestOID algorithm) st\<lparr>messageDigest := hash_Sum S hash (sdData st)\<rparr>"
  let ?t = "ciContentType (sdContentInfo (sd st))" and ?digest = "hash_Sum S hash data"
  from doc have st: "sdData st = data" "oid_ok ?t" by (auto simp: doc_ok_def content_ok_def)
  from doc alg obtain h where h: "getCMSSignerAlgorithm key (digestOID h) None = Inr algorithm" by (auto simp: doc_ok_def)
  from info obtain as us covered signature where as: "ForMarshalling S (signedAttributes now ?t ?digest config) = Inr as"
    and us: "ForMarshalling S (addAll (ExtraUnsignedAttributes config)) = Inr us"
    and marshal: "marshalAttributes as = Inr covered" and sign: "cms_sign S algorithm key covered hash ent = Inr (signature, ent')"
    and si: "si = \<lparr>siVersion = 1, siIssuerAndSerialNumber = cert2issuerAndSerial ee,
       siDigestAlgorithm = algOnly (cmsDigestOID algorithm), siAuthenticatedAttributes = as,
       siDigestEncryptionAlgorithm = algOnly (cmsSignatureOID algorithm), siEncryptedDigest = signature,
       siUnauthenticatedAttributes = us\<rparr>"
    by (rule chainSignerInfo_Inr) (simp add: st(1))
  note sig = cms_sign_verifies [OF pair h hash sign]
  from ForMarshalling_encodes(2) [OF as] signedAttributes_base(2) have "as \<noteq> []" by fastforce
  moreover have "\<exists>attrs. ForMarshalling S attrs = Inr as \<and> attrs_ok S attrs \<and> attrs_cover S ?digest ee attrs"
    using as config_ok_signed [OF config st(2)] config_ok_cover [OF config] by blast
  ultimately have "signature_ok X S data ee si hash"
    using sig(1,3) marshal unfolding signature_ok_def si by auto
  with us config_ok_unsigned [OF config] sig(1,2) name show ?thesis
    unfolding signer_ok_def by (auto simp: si)
qed

lemma plain_signer_ok:
  assumes doc: "doc_ok X S data st ees" and alg: "getCMSSignerAlgorithm key (digestOid st) (encryptionOid st) = Inr algorithm"
    and hash: "getHashForOID (cmsDigestOID algorithm) = Inr hash"
    and sign: "cms_sign S algorithm key (sdData st) hash ent = Inr (signature, ent')"
    and pair: "key_pair X S key ee" and name: "name_ok 490 (RawIssuer ee)"
  shows "signer_ok X S data ee \<lparr>siVersion = 1, siIssuerAndSerialNumber = cert2issuerAndSerial ee,
      siDigestAlgorithm = algOnly (cmsDigestOID algorithm), siAuthenticatedAttributes = [],
      siDigestEncryptionAlgorithm = algOnly (cmsSignatureOID algorithm), siEncryptedDigest = signature,
      siUnauthenticatedAttributes = []\<rparr>"
proof -
  from doc alg obtain h where h: "getCMSSignerAlgorithm key (digestOID h) None = Inr algorithm" by (auto simp: doc_ok_def)
  note sig = cms_sign_verifies [OF pair h hash sign]
  from sig(1,3) doc have "signature_ok X S data ee \<lparr>siVersion = 1, siIssuerAndSerialNumber = cert2issuerAndSerial ee,
      siDigestAlgorithm = algOnly (cmsDigestOID algorithm), siAuthenticatedAttributes = [],
      siDigestEncryptionAlgorithm = algOnly (cmsSignatureOID algorithm), siEncryptedDigest = signature,
      siUnauthenticatedAttributes = []\<rparr> hash"
    by (simp add: signature_ok_def doc_ok_def)
  with sig(1,2) name no_attributes_ok [of S] show ?thesis unfolding signer_ok_def by auto
qed

lemma session_doc_ok: "session X S data st ees \<Longrightarrow> doc_ok X S data st ees"
proof (induction rule: session.induct)
  case (signer st ees now ee key parents config ent st' ent')
  show ?case
  proof (rule AddSignerChain_cases [of X S now ee key parents config st ent])
    fix algorithm issuer hash si ent''
    assume alg: "getCMSSignerAlgorithm key (digestOid st) None = Inr algorithm" and issuer: "chainIssuer X ee parents = Inr issuer"
      and hash: "getHashForOID (cmsDigestOID algorithm) = Inr hash"
      and si: "chainSignerInfo S now (addDigestAlgorithm (cmsDigestOID algorithm) st\<lparr>messageDigest := hash_Sum S hash (sdData st)\<rparr>)
        algorithm hash \<lparr>IssuerName = rawFull issuer, SerialNumber = certSerialNumber ee\<rparr> key config ent = Inr (si, ent'')"
      and st': "AddSignerChain X S now ee key parents config st ent =
        (addSignerInfo si (if SkipCertificates config then [] else ee # parents)
          (addDigestAlgorithm (cmsDigestOID algorithm) st\<lparr>messageDigest := hash_Sum S hash (sdData st)\<rparr>), Inr ent'')"
    have "issuer = RawIssuer ee"
      using issuer signer.hyps(5) by (cases parents) (auto simp: chainIssuer_def and_then_Inr_iff)
    with si have "chainSignerInfo S now (addDigestAlgorithm (cmsDigestOID algorithm) st\<lparr>messageDigest := hash_Sum S hash (sdData st)\<rparr>)
        algorithm hash (cert2issuerAndSerial ee) key config ent = Inr (si, ent'')" by (simp add: cert2issuerAndSerial_def)
    from chain_signer_ok [OF signer.IH alg hash this signer.hyps(3,4,6)] st' signer.hyps(2)
    show ?thesis by (auto intro: doc_ok_signer doc_ok_digest [OF signer.IH alg])
  qed (use signer.hyps(2) in auto)
next
  case (signer_failed st ees now ee key parents config ent st' e)
  show ?case
    by (rule AddSignerChain_cases [of X S now ee key parents config st ent])
      (use signer_failed in \<open>auto intro: doc_ok_digest\<close>)
next
  case (plain_signer st ees ee key config ent st' ent')
  show ?case
    by (rule SignWithoutAttr_cases [of S ee key config st ent])
      (use plain_signer in \<open>auto intro!: doc_ok_signer doc_ok_digest plain_signer_ok\<close>)
next
  case (plain_signer_failed st ees ee key config ent st' e)
  show ?case
    by (rule SignWithoutAttr_cases [of S ee key config st ent])
      (use plain_signer_failed in \<open>auto intro: doc_ok_digest\<close>)
next
  case (no_unauthenticated st ees)
  have "signer_ok X S data ee (si\<lparr>siUnauthenticatedAttributes := []\<rparr>)" if "signer_ok X S data ee si" for ee si
    using that no_attributes_ok [of S] by (simp add: signer_ok_def)
  with no_unauthenticated.IH show ?case
    by (auto simp: doc_ok_def RemoveUnauthenticatedAttributes_def list_all2_map2 intro: list_all2_mono)
qed (auto simp: doc_ok_def content_ok_def NewSignedData_def emptySignedData_def operation_defs intro: exI [of _ SHA1])

section \<open>An example\<close>

lemmas sign_eval = AddSigner_def AddSignerChain_def chainSignerInfo_def getCMSSignerAlgorithm_def getOIDForEncryptionAlgorithm_def
  oidForPublicKey_def mlDSAAlgorithmForPublicKey_def chainIssuer_def NewSignedData_def getHashForOID_def addDigestAlgorithm_def
  emptySignedData_def ForMarshalling_def sortable_def marshalAttribute_def signedAttributes_def toy_config_def attributes_Add_def
  noAttributes_def toy_signing_def marshalAttributes_def cms_sign_def addAll_def addSignerInfo_def

lemmas finish_eval = Finish_def marshalSD_def marshalCertificates_def marshalCertificateBytes_def marshalRawCertificates_def
  stripTagAndLength_def marshalCRLs_def marshalSignerInfo_def marshalTaggedAttributes_def marshalAttribute_def Detach_def

lemma example_signed:
  "\<exists>st st1 st2 bs1 bs2. AddSigner toy_x509 toy_signing 5 (toy_certificate (RSAPublicKey [1]) 1) (RSAPrivateKey [5] [1]) toy_config
       (NewSignedData [104, 105]) [] = (st, Inr []) \<and> certs st = [toy_certificate (RSAPublicKey [1]) 1] \<and>
     Finish toy_x509 st = (st1, Inr bs1) \<and> length bs1 < 2 ^ 31 \<and>
     Finish toy_x509 (Detach st) = (st2, Inr bs2) \<and> length bs2 < 2 ^ 31"
  by (simp add: sign_eval finish_eval encode_eval Let_def)

lemma toy_pair: "key_pair toy_x509 toy_signing (RSAPrivateKey [5] [1]) (toy_certificate (RSAPublicKey [1]) 1)"
  by (simp add: key_pair_def toy_certificate_def toy_signing_def toy_x509_def)

lemma toy_config_ok: "config_ok toy_signing (toy_certificate (RSAPublicKey [1]) 1) 5 toy_config"
proof -
  have "value_der toy_signing (ValueTime 5)"
    using der_items_single [OF der_item_marshalInt [of 5 489]] by (simp add: value_der_def toy_signing_def)
  moreover have "time_ok toy_signing (toy_certificate (RSAPublicKey [1]) 1) (ValueTime 5)"
    using int64.dec_enc [of 5 "[]"]
    by (simp add: time_ok_def toy_signing_def toy_certificate_def)
  ultimately show ?thesis by (simp add: config_ok_def toy_config_def)
qed

lemma toy_pool: "pool_ok toy_x509 [toy_certificate (RSAPublicKey [1]) 1]" "der_items 490 [48, 0]"
proof -
  show der: "der_items 490 [48, 0]"
    using der_items_single [OF der_item_sequence [OF _ der_items_Nil, of 489]] by (simp add: encode_eval)
  then show "pool_ok toy_x509 [toy_certificate (RSAPublicKey [1]) 1]"
    by (simp add: pool_ok_def toy_certificate_def toy_x509_def)
qed

lemma toy_session:
  assumes "AddSigner toy_x509 toy_signing 5 (toy_certificate (RSAPublicKey [1]) 1) (RSAPrivateKey [5] [1]) toy_config
       (NewSignedData data) [] = (st, Inr [])"
  shows "session toy_x509 toy_signing data st [toy_certificate (RSAPublicKey [1]) 1]"
proof -
  have "name_ok 490 (RawIssuer (toy_certificate (RSAPublicKey [1]) 1))" using toy_name by (simp add: toy_certificate_def)
  from session.signer [OF session.start assms [unfolded AddSigner_def] toy_pair this _ toy_config_ok] show ?thesis by simp
qed

section \<open>Properties\<close>

lemma session_written:
  assumes "session X S data st ees" "pool_ok X (certs st)"
  shows "written_ok X S data (concat (map certRaw (certs st))) (certs st) data
      ((sd st)\<lparr>sdCertificates := marshalCertificates (certs st)\<rparr>)"
    and "written_ok X S data (concat (map certRaw (certs st))) (certs st) []
      ((sd (Detach st))\<lparr>sdCertificates := marshalCertificates (certs st)\<rparr>)"
proof -
  from session_doc_ok [OF assms(1)] have doc: "doc_ok X S data st ees" .
  then have signers: "\<forall>si \<in> set (sdSignerInfos (sd st)). \<exists>ee. signer_ok X S data ee si"
    using list_all2_setD(1) unfolding doc_ok_def by fast
  have raw: "der_items 490 (concat (map certRaw (certs st)))"
    using assms(2) by (intro der_items_concat) (simp add: pool_ok_def)
  show "written_ok X S data (concat (map certRaw (certs st))) (certs st) data
      ((sd st)\<lparr>sdCertificates := marshalCertificates (certs st)\<rparr>)"
    using doc signers raw assms(2) by (simp add: written_ok_def doc_ok_def pool_ok_def marshalCertificates_def)
  have "content_ok data \<lparr>ciContentType = OIDData, ciContent = rawZero\<rparr> []" by (simp add: content_ok_def)
  then show "written_ok X S data (concat (map certRaw (certs st))) (certs st) []
      ((sd (Detach st))\<lparr>sdCertificates := marshalCertificates (certs st)\<rparr>)"
    using doc signers raw assms(2) by (simp add: written_ok_def doc_ok_def pool_ok_def marshalCertificates_def Detach_def)
qed

text \<open>Verification of a document that has good signers.\<close>

definition roots_ok :: "x509 \<Rightarrow> Certificate list option \<Rightarrow> Certificate list \<Rightarrow> bool" where
  "roots_ok X roots ees \<longleftrightarrow> (\<forall>ee \<in> set ees. \<forall>opts. Roots opts = roots \<longrightarrow> trusted X ee opts)"

lemma roots_ok_None [simp]: "roots_ok X None ees"
  by (simp add: roots_ok_def trusted_def)

lemma signers_verify:
  assumes signers: "list_all2 (signer_ok X S data) ees sis" "ees \<noteq> []"
    and written: "\<forall>si \<in> set sis. \<exists>e. marshalSignerInfo si = Inr e \<and> length e < 2 ^ 31"
    and p7: "Content p7 = data" "Signers p7 = map siNorm (sort_key (projr \<circ> marshalSignerInfo) sis)"
    and ees: "set ees \<subseteq> set (Certificates p7)"
    and unique: "\<forall>ee \<in> set ees. \<forall>c \<in> set (Certificates p7). same_recipient c ee \<longrightarrow> c = ee"
    and roots: "roots_ok X roots ees"
  shows "VerifyWithChain X S clock p7 roots = Inr ()"
proof -
  have good: "\<exists>ee \<in> set ees. \<forall>initial. authentic X S p7 signer ee \<and> timely S signer ee initial"
    if "signer \<in> set (Signers p7)" for signer
  proof -
    from that p7(2) obtain si where si: "si \<in> set sis" "signer = siNorm si" by auto
    from list_all2_setD(1) [OF signers(1)] si(1) obtain ee where ee: "ee \<in> set ees" "signer_ok X S data ee si" by blast
    from written si(1) obtain e where e: "marshalSignerInfo si = Inr e" "length e < 2 ^ 31" by blast
    from ees ee(1) have "ee \<in> set (Certificates p7)" by blast
    moreover from unique ee(1) have "\<forall>c \<in> set (Certificates p7). same_recipient c ee \<longrightarrow> c = ee" by blast
    ultimately show ?thesis using signer_ok_authentic [OF ee(2) e p7(1)] ee(1) unfolding si(2) by blast
  qed
  have "sis \<noteq> []" using signers by auto
  then have "Signers p7 \<noteq> []" using p7(2) by (metis list.map_disc_iff mset_sort mset_zero_iff)
  moreover have "verifySignature X S now p7 signer opts = Inr ()" if "signer \<in> set (Signers p7)" "Roots opts = roots" for signer now opts
    using good [OF that(1)] roots that(2) unfolding verifySignature_iff roots_ok_def by fastforce
  ultimately show ?thesis by (simp add: VerifyWithChain_def VerifyWithOpts_def verifySignatures_iff)
qed

text \<open>
  C32: What a session signs, verifies: when \<open>Finish\<close> succeeds after any session with at least one signer,
  the document parses, holds the data and the certificates of the session, and \<open>VerifyWithChain\<close>
  accepts it, with no roots as \<open>Verify\<close> does or with any roots that trust the signers, if the
  certificates of the signers are among the certificates and no other one has their issuer and number.
\<close>

theorem signed_roundtrip:
  assumes session: "session X S data st ees" and signers: "ees \<noteq> []" "set ees \<subseteq> set (certs st)"
    and unique: "\<forall>ee \<in> set ees. \<forall>c \<in> set (certs st). same_recipient c ee \<longrightarrow> c = ee" and pool: "pool_ok X (certs st)"
    and finish: "Finish X st = (st', Inr bs)" "length bs < 2 ^ 31" and roots: "roots_ok X roots ees"
  shows "\<exists>p7. Parse X bs = Inr p7 \<and> Content p7 = data \<and> Certificates p7 = certs st \<and> length (Signers p7) = length ees \<and>
    VerifyWithChain X S clock p7 roots = Inr ()"
proof -
  from finish(1) have wrap: "and_then (marshalSD X ((sd st)\<lparr>sdCertificates := marshalCertificates (certs st)\<rparr>)) (wrapContent OIDSignedData) = Inr bs"
    by (simp add: Finish_def Let_def)
  note parsed = written_parsed [OF session_written(1) [OF session pool] wrap finish(2)]
  from session_doc_ok [OF session] have all: "list_all2 (signer_ok X S data) ees (sdSignerInfos (sd st))" by (simp add: doc_ok_def)
  show ?thesis
    by (rule exI, intro conjI, rule parsed(1))
      (use parsed(2) signers unique roots list_all2_lengthD [OF all] in \<open>simp_all add: signers_verify [OF all]\<close>)
qed

theorem signed_roundtrip_witness:
  "\<exists>st st' bs p7. AddSigner toy_x509 toy_signing 5 (toy_certificate (RSAPublicKey [1]) 1) (RSAPrivateKey [5] [1]) toy_config
       (NewSignedData [104, 105]) [] = (st, Inr []) \<and> Finish toy_x509 st = (st', Inr bs) \<and> Parse toy_x509 bs = Inr p7 \<and>
     Content p7 = [104, 105] \<and> p7_Verify toy_x509 toy_signing (\<lambda>_. 5) p7 = Inr ()"
proof -
  from example_signed obtain st st' bs where ex: "AddSigner toy_x509 toy_signing 5 (toy_certificate (RSAPublicKey [1]) 1)
      (RSAPrivateKey [5] [1]) toy_config (NewSignedData [104, 105]) [] = (st, Inr [])"
    "certs st = [toy_certificate (RSAPublicKey [1]) 1]" "Finish toy_x509 st = (st', Inr bs)" "length bs < 2 ^ 31" by blast
  from signed_roundtrip [OF toy_session [OF ex(1)] _ _ _ _ ex(3,4) roots_ok_None, of "\<lambda>_. 5"] ex(1-3) toy_pool(1)
  show ?thesis by (auto simp: p7_Verify_def)
qed

text \<open>
  C33: A detached signature verifies once the client puts the content back: the document holds no content,
  and with the data the session was made for in its place the signers verify.
\<close>

theorem detached_roundtrip:
  assumes session: "session X S data st ees" and signers: "ees \<noteq> []" "set ees \<subseteq> set (certs st)"
    and unique: "\<forall>ee \<in> set ees. \<forall>c \<in> set (certs st). same_recipient c ee \<longrightarrow> c = ee" and pool: "pool_ok X (certs st)"
    and finish: "Finish X (Detach st) = (st', Inr bs)" "length bs < 2 ^ 31" and roots: "roots_ok X roots ees"
  shows "\<exists>p7. Parse X bs = Inr p7 \<and> Content p7 = [] \<and> VerifyWithChain X S clock (p7\<lparr>Content := data\<rparr>) roots = Inr ()"
proof -
  have "certs (Detach st) = certs st" by (simp add: Detach_def)
  with finish(1) have wrap: "and_then (marshalSD X ((sd (Detach st))\<lparr>sdCertificates := marshalCertificates (certs st)\<rparr>))
      (wrapContent OIDSignedData) = Inr bs"
    by (simp add: Finish_def Let_def)
  note parsed = written_parsed [OF session_written(2) [OF session pool] wrap finish(2)]
  from session_doc_ok [OF session] have all: "list_all2 (signer_ok X S data) ees (sdSignerInfos (sd (Detach st)))"
    by (simp add: doc_ok_def Detach_def)
  show ?thesis
    by (rule exI, intro conjI, rule parsed(1))
      (use parsed(2) signers unique roots in \<open>simp_all add: signers_verify [OF all]\<close>)
qed

theorem detached_roundtrip_witness:
  "\<exists>st st' bs p7. AddSigner toy_x509 toy_signing 5 (toy_certificate (RSAPublicKey [1]) 1) (RSAPrivateKey [5] [1]) toy_config
       (NewSignedData [104, 105]) [] = (st, Inr []) \<and> Finish toy_x509 (Detach st) = (st', Inr bs) \<and> Parse toy_x509 bs = Inr p7 \<and>
     Content p7 = [] \<and> p7_Verify toy_x509 toy_signing (\<lambda>_. 5) (p7\<lparr>Content := [104, 105]\<rparr>) = Inr ()"
proof -
  from example_signed obtain st st' bs where ex: "AddSigner toy_x509 toy_signing 5 (toy_certificate (RSAPublicKey [1]) 1)
      (RSAPrivateKey [5] [1]) toy_config (NewSignedData [104, 105]) [] = (st, Inr [])"
    "certs st = [toy_certificate (RSAPublicKey [1]) 1]" "Finish toy_x509 (Detach st) = (st', Inr bs)" "length bs < 2 ^ 31" by blast
  from detached_roundtrip [OF toy_session [OF ex(1)] _ _ _ _ ex(3,4) roots_ok_None, of "\<lambda>_. 5"] ex(1-3) toy_pool(1)
  show ?thesis by (auto simp: p7_Verify_def)
qed

text \<open>
  C34: A degenerate document gives back the certificates it was made from, and has neither content nor
  signers nor revocation lists.
\<close>

theorem degenerate_roundtrip:
  assumes "DegenerateCertificate X cert = Inr bs" "length bs < 2 ^ 31" "der_items 490 cert" "x509_ParseCertificates X cert = Inr cs"
  shows "\<exists>p7. Parse X bs = Inr p7 \<and> Certificates p7 = cs \<and> Content p7 = [] \<and> Signers p7 = [] \<and> CRLs p7 = Some [] \<and>
    (\<forall>S clock opts. VerifyWithOpts X S clock p7 opts = Inl (SignError NoSigners))"
proof -
  let ?doc = "(emptySignedData \<lparr>ciContentType = OIDData, ciContent = rawZero\<rparr>)
    \<lparr>sdCertificates := marshalCertificateBytes cert, sdCRLs := Some []\<rparr>"
  have "written_ok X toy_signing [] cert cs [] ?doc"
    using assms(3,4) by (simp add: written_ok_def emptySignedData_def content_ok_def)
  from written_parsed(1) [OF this assms(1) [unfolded DegenerateCertificate_def] assms(2)] show ?thesis
    by (simp add: emptySignedData_def VerifyWithOpts_def Let_def)
qed

theorem degenerate_roundtrip_witness:
  "\<exists>bs p7. DegenerateCertificate toy_x509 [48, 0] = Inr bs \<and> Parse toy_x509 bs = Inr p7 \<and>
     Certificates p7 = [toy_certificate (RSAPublicKey [1]) 1] \<and> Signers p7 = []"
proof -
  have "\<exists>bs. DegenerateCertificate toy_x509 [48, 0] = Inr bs \<and> length bs < 2 ^ 31"
    by (simp add: DegenerateCertificate_def emptySignedData_def finish_eval encode_eval)
  then obtain bs where bs: "DegenerateCertificate toy_x509 [48, 0] = Inr bs" "length bs < 2 ^ 31" by blast
  have "x509_ParseCertificates toy_x509 [48, 0] = Inr [toy_certificate (RSAPublicKey [1]) 1]" by (simp add: toy_x509_def)
  from degenerate_roundtrip [OF bs toy_pool(2) this] bs(1) show ?thesis by blast
qed

end
