(* ===== verification/Spec2Isabelle.thy ===== *)
theory Spec2Isabelle
  imports BerGrammar BerDer KeyWrap Envelope SignedSessions
begin

text \<open>
  A development for the Go package \<open>pkcs7\<close> (header to be completed).
\<close>

end
